theory Spec2Isabelle
  imports Main "HOL-Library.Multiset"
begin

section \<open>Data model (types.ts)\<close>

text \<open>
  A JavaScript \<open>number\<close> is modelled as an \<open>int\<close> wherever the planner only adds,
  multiplies and compares it (instants in milliseconds, minutes, scores). Where the
  source itself tests \<open>Number.isFinite\<close> or hands the number to \<open>Array.prototype.slice\<close>
  (the rank of a movie, the maximum result count, the beam width), the number is a
  \<open>jsnum\<close>, so that the non-finite branch of the source is a branch of the model.
  Identifiers are strings.
\<close>

datatype jsnum = Fin int | NaN | PosInf | NegInf

type_synonym Id = string

record Movie =
  id_m :: Id
  title :: string
  runtimeMins :: int
  rank :: "jsnum option"

record Theater =
  id_t :: Id
  name_t :: string

record Showtime =
  id_st :: Id
  movieId_st :: Id
  theaterId_st :: Id
  startLocal :: string

record Settings =
  trailerLeewayMins :: int
  travelMins :: int
  maxResults :: jsnum
  beamWidth :: jsnum

record AppState =
  settings :: Settings
  movies :: "Movie list"
  theaters :: "Theater list"
  showtimes :: "Showtime list"

record ScheduledShow =
  showtimeId :: Id
  movieId :: Id
  theaterId :: Id
  startMs :: int
  endMs :: int

record Itinerary =
  shows_it :: "ScheduledShow list"
  preferenceScore :: int
  movieCount :: nat
  finishMs :: int
  totalTravelMins :: int

text \<open>The search-internal \<open>Partial\<close> type of \<open>generateItineraries\<close>.\<close>

record Partial =
  lastIdx :: nat
  usedMovieIds :: "Id set"
  usedShowtimeIds :: "Id set"
  shows_p :: "ScheduledShow list"
  preferenceScore_p :: int
  totalTravelMins_p :: int

text \<open>The result of \<open>canTransition\<close>.\<close>

record Transition =
  ok :: bool
  travelAppliedMins :: int

section \<open>Library functions of the platform\<close>

text \<open>
  \<open>Array.prototype.sort\<close> with a comparator: the sort is stable, and for a consistent
  comparator its result is the one stable ordering, whatever algorithm the engine runs.
  The model is the stable insertion sort: an element goes in front of the first
  element of the sorted rest that it does not compare greater than.
\<close>

fun insort_cmp :: "('a \<Rightarrow> 'a \<Rightarrow> int) \<Rightarrow> 'a \<Rightarrow> 'a list \<Rightarrow> 'a list" where
  "insort_cmp c x [] = [x]"
| "insort_cmp c x (y # ys) = (if c x y \<le> 0 then x # y # ys else y # insort_cmp c x ys)"

fun array_sort :: "('a \<Rightarrow> 'a \<Rightarrow> int) \<Rightarrow> 'a list \<Rightarrow> 'a list" where
  "array_sort c [] = []"
| "array_sort c (x # xs) = insort_cmp c x (array_sort c xs)"

text \<open>
  \<open>xs.slice(0, e)\<close>: the end is made an integer (\<open>NaN\<close> is 0), a negative end counts
  from the back, and the result is clipped to the array.
\<close>

definition slice0 :: "'a list \<Rightarrow> jsnum \<Rightarrow> 'a list" where
  "slice0 xs e =
     (case e of
        Fin v \<Rightarrow> (if v < 0 then take (nat (int (length xs) + v)) xs else take (nat v) xs)
      | NaN \<Rightarrow> []
      | PosInf \<Rightarrow> xs
      | NegInf \<Rightarrow> [])"

text \<open>\<open>ids.join(">")\<close>.\<close>

fun join_gt :: "string list \<Rightarrow> string" where
  "join_gt [] = []"
| "join_gt [s] = s"
| "join_gt (s # t # ts) = s @ ''>'' @ join_gt (t # ts)"

section \<open>utils.ts\<close>

definition clampInt :: "jsnum \<Rightarrow> int \<Rightarrow> int \<Rightarrow> int" where
  "clampInt n lo hi = (case n of Fin v \<Rightarrow> max lo (min hi v) | _ \<Rightarrow> lo)"

text \<open>
  \<open>parseLocalDateTimeToMs\<close>: the platform's date parser is a parameter \<open>getTime\<close>, which
  gives the instant of a timestamp or \<open>None\<close> for the \<open>NaN\<close> of an invalid date.
\<close>

definition parseLocalDateTimeToMs :: "(string \<Rightarrow> int option) \<Rightarrow> string \<Rightarrow> int option" where
  "parseLocalDateTimeToMs getTime local =
     (case getTime local of Some ms \<Rightarrow> Some ms | None \<Rightarrow> None)"

definition moviePreferencePoints :: "Movie \<Rightarrow> int" where
  "moviePreferencePoints movie =
     (case rank movie of None \<Rightarrow> 0 | Some rk \<Rightarrow> 100000 - clampInt rk 1 9999)"

text \<open>\<open>new Map(movies.map(m => [m.id, m]))\<close>: a later movie replaces an earlier one of the same id.\<close>

definition movieById :: "Movie list \<Rightarrow> (Id \<rightharpoonup> Movie)" where
  "movieById ms = foldl (\<lambda>mp m. mp(id_m m \<mapsto> m)) Map.empty ms"

fun buildLoop ::
  "(string \<Rightarrow> int option) \<Rightarrow> (Id \<rightharpoonup> Movie) \<Rightarrow> Showtime list \<Rightarrow> ScheduledShow list \<Rightarrow> ScheduledShow list"
where
  "buildLoop getTime mb [] out = out"
| "buildLoop getTime mb (st # sts) out =
     (case mb (movieId_st st) of
        None \<Rightarrow> buildLoop getTime mb sts out
      | Some m \<Rightarrow>
          (case parseLocalDateTimeToMs getTime (startLocal st) of
             None \<Rightarrow> buildLoop getTime mb sts out
           | Some start \<Rightarrow>
               buildLoop getTime mb sts
                 (out @ [\<lparr>showtimeId = id_st st, movieId = movieId_st st,
                          theaterId = theaterId_st st, startMs = start,
                          endMs = start + runtimeMins m * 60000\<rparr>])))"

definition buildScheduledShows :: "(string \<Rightarrow> int option) \<Rightarrow> AppState \<Rightarrow> ScheduledShow list" where
  "buildScheduledShows getTime state =
     array_sort (\<lambda>a b. startMs a - startMs b)
       (buildLoop getTime (movieById (movies state)) (showtimes state) [])"

definition canTransition :: "ScheduledShow \<Rightarrow> ScheduledShow \<Rightarrow> int \<Rightarrow> int \<Rightarrow> Transition" where
  "canTransition a b trailerLeeway travel =
     (if startMs b < startMs a then \<lparr>ok = False, travelAppliedMins = 0\<rparr>
      else
        (let applied = (if theaterId a = theaterId b then 0 else travel);
             arriveDeadlineMs = startMs b + trailerLeeway * 60000;
             earliestArrivalMs = endMs a + applied * 60000
         in \<lparr>ok = (earliestArrivalMs \<le> arriveDeadlineMs), travelAppliedMins = applied\<rparr>))"

definition sortItineraries :: "Itinerary list \<Rightarrow> Itinerary list" where
  "sortItineraries its =
     array_sort (\<lambda>a b.
        if preferenceScore b \<noteq> preferenceScore a then preferenceScore b - preferenceScore a
        else if movieCount b \<noteq> movieCount a then int (movieCount b) - int (movieCount a)
        else finishMs a - finishMs b) its"

subsection \<open>generateItineraries\<close>

text \<open>The adjacency lists \<open>nexts[i]\<close> and \<open>travelCost[i]\<close>, filled by the inner loop over \<open>j\<close>.\<close>

definition nexts_row :: "ScheduledShow list \<Rightarrow> int \<Rightarrow> int \<Rightarrow> nat \<Rightarrow> nat list" where
  "nexts_row shows X T i =
     filter (\<lambda>j. ok (canTransition (shows ! i) (shows ! j) X T)) [i + 1 ..< length shows]"

definition travelCost_row :: "ScheduledShow list \<Rightarrow> int \<Rightarrow> int \<Rightarrow> nat \<Rightarrow> int list" where
  "travelCost_row shows X T i =
     map (\<lambda>j. travelAppliedMins (canTransition (shows ! i) (shows ! j) X T))
       (nexts_row shows X T i)"

definition pointsOf :: "(Id \<rightharpoonup> Movie) \<Rightarrow> ScheduledShow \<Rightarrow> int" where
  "pointsOf mb s = (case mb (movieId s) of Some m \<Rightarrow> moviePreferencePoints m | None \<Rightarrow> 0)"

definition initial :: "(Id \<rightharpoonup> Movie) \<Rightarrow> ScheduledShow list \<Rightarrow> Partial list" where
  "initial mb shows =
     map (\<lambda>(s, idx).
        \<lparr>lastIdx = idx, usedMovieIds = {movieId s}, usedShowtimeIds = {showtimeId s},
         shows_p = [s], preferenceScore_p = pointsOf mb s, totalTravelMins_p = 0\<rparr>)
       (zip shows [0 ..< length shows])"

text \<open>
  \<open>finalize\<close> works on the pair of \<open>finished\<close> and \<open>seenItineraryKeys\<close>. The finish
  instant is read from the last show of the chain; every chain the search builds has
  one (lemma \<open>beam_shows_nonempty\<close>), so the read is never out of range.
\<close>

definition finalize :: "Itinerary list \<times> string set \<Rightarrow> Partial \<Rightarrow> Itinerary list \<times> string set" where
  "finalize st p =
     (let it = \<lparr>shows_it = shows_p p, preferenceScore = preferenceScore_p p,
                movieCount = length (shows_p p), finishMs = endMs (last (shows_p p)),
                totalTravelMins = totalTravelMins_p p\<rparr>;
          key = join_gt (map showtimeId (shows_it it))
      in if key \<notin> snd st then (fst st @ [it], insert key (snd st)) else st)"

text \<open>
  The loop over \<open>k\<close>: the successors of one chain, in the order of \<open>nexts[i]\<close>. The
  candidates come paired with their travel costs, \<open>(nexts[i][k], travelCost[i][k])\<close>; the
  two rows have the same length (lemma \<open>length_travelCost_row\<close>) and every candidate is an
  index of \<open>shows\<close> (lemma \<open>nexts_row_in_range\<close>).
\<close>

fun expandOne ::
  "(Id \<rightharpoonup> Movie) \<Rightarrow> ScheduledShow list \<Rightarrow> Partial \<Rightarrow> (nat \<times> int) list \<Rightarrow> Partial list"
where
  "expandOne mb shows p [] = []"
| "expandOne mb shows p ((j, addTravel) # rest) =
     (let nextShow = shows ! j in
      if showtimeId nextShow \<in> usedShowtimeIds p then expandOne mb shows p rest
      else if movieId nextShow \<in> usedMovieIds p then expandOne mb shows p rest
      else
        \<lparr>lastIdx = j,
         usedMovieIds = insert (movieId nextShow) (usedMovieIds p),
         usedShowtimeIds = insert (showtimeId nextShow) (usedShowtimeIds p),
         shows_p = shows_p p @ [nextShow],
         preferenceScore_p = preferenceScore_p p + pointsOf mb nextShow,
         totalTravelMins_p = totalTravelMins_p p + addTravel\<rparr>
        # expandOne mb shows p rest)"

definition expand ::
  "(Id \<rightharpoonup> Movie) \<Rightarrow> ScheduledShow list \<Rightarrow> int \<Rightarrow> int \<Rightarrow> Partial list \<Rightarrow> Partial list"
where
  "expand mb shows X T beam =
     concat (map (\<lambda>p. expandOne mb shows p
                        (zip (nexts_row shows X T (lastIdx p))
                             (travelCost_row shows X T (lastIdx p)))) beam)"

definition beamCompare :: "Partial \<Rightarrow> Partial \<Rightarrow> int" where
  "beamCompare a b =
     (if preferenceScore_p b \<noteq> preferenceScore_p a then preferenceScore_p b - preferenceScore_p a
      else if length (shows_p b) \<noteq> length (shows_p a)
        then int (length (shows_p b)) - int (length (shows_p a))
      else
        (let af = endMs (last (shows_p a)); bf = endMs (last (shows_p b))
         in if af \<noteq> bf then af - bf else totalTravelMins_p a - totalTravelMins_p b))"

text \<open>
  The loop \<open>for (step = 0; step < n; step++)\<close>; the first argument counts the steps
  that are left.
\<close>

fun search ::
  "(Id \<rightharpoonup> Movie) \<Rightarrow> ScheduledShow list \<Rightarrow> int \<Rightarrow> int \<Rightarrow> jsnum \<Rightarrow> nat \<Rightarrow> Partial list
   \<Rightarrow> Itinerary list \<times> string set \<Rightarrow> Itinerary list \<times> string set"
where
  "search mb shows X T W 0 beam st = st"
| "search mb shows X T W (Suc left) beam st =
     (let st' = foldl finalize st beam;
          expanded = expand mb shows X T beam
      in if expanded = [] then st'
         else search mb shows X T W left (slice0 (array_sort beamCompare expanded) W) st')"

text \<open>The list \<open>finished\<close> when the loop is left.\<close>

definition finishedItineraries :: "(string \<Rightarrow> int option) \<Rightarrow> AppState \<Rightarrow> Itinerary list" where
  "finishedItineraries getTime state =
     (let mb = movieById (movies state);
          shows = buildScheduledShows getTime state
      in fst (search mb shows (trailerLeewayMins (settings state)) (travelMins (settings state))
                (beamWidth (settings state)) (length shows) (initial mb shows) ([], {})))"

definition generateItineraries :: "(string \<Rightarrow> int option) \<Rightarrow> AppState \<Rightarrow> Itinerary list" where
  "generateItineraries getTime state =
     (if length (buildScheduledShows getTime state) = 0 then []
      else take (nat (clampInt (maxResults (settings state)) 1 200))
             (sortItineraries (finishedItineraries getTime state)))"

section \<open>Specification-level notions, proof devices and example inputs\<close>

text \<open>
  The schedule builder as the specification words it: an entry whose movie reference
  resolves and whose timestamp parses gives an instance that ends at its start plus the
  runtime of the movie; any other entry gives none. The survivors are the instances of the
  entries, in input order.
\<close>

definition spec_instance :: "(string \<Rightarrow> int option) \<Rightarrow> Movie list \<Rightarrow> Showtime \<Rightarrow> ScheduledShow option" where
  "spec_instance getTime ms st =
     (case movieById ms (movieId_st st) of
        None \<Rightarrow> None
      | Some m \<Rightarrow>
          (case getTime (startLocal st) of
             None \<Rightarrow> None
           | Some t \<Rightarrow> Some \<lparr>showtimeId = id_st st, movieId = movieId_st st,
                              theaterId = theaterId_st st, startMs = t,
                              endMs = t + runtimeMins m * 60000\<rparr>))"

definition spec_survivors :: "(string \<Rightarrow> int option) \<Rightarrow> AppState \<Rightarrow> ScheduledShow list" where
  "spec_survivors getTime state =
     List.map_filter (spec_instance getTime (movies state)) (showtimes state)"

text \<open>
  The feasibility rule of the specification for a pair of instances: the second does not
  start before the first starts, and the end of the first plus the travel cost (0 in the
  same theater, \<open>T\<close> minutes otherwise) is at most the start of the second plus
  \<open>X\<close> minutes.
\<close>

definition spec_feasible :: "int \<Rightarrow> int \<Rightarrow> ScheduledShow \<Rightarrow> ScheduledShow \<Rightarrow> bool" where
  "spec_feasible X T a b \<longleftrightarrow>
     startMs a \<le> startMs b \<and>
     endMs a + (if theaterId a = theaterId b then 0 else T) * 60000 \<le> startMs b + X * 60000"

text \<open>
  The record that \<open>finalize\<close> builds from a chain, and the key it deduplicates by.
\<close>

definition toItinerary :: "Partial \<Rightarrow> Itinerary" where
  "toItinerary p =
     \<lparr>shows_it = shows_p p, preferenceScore = preferenceScore_p p,
      movieCount = length (shows_p p), finishMs = endMs (last (shows_p p)),
      totalTravelMins = totalTravelMins_p p\<rparr>"

definition itineraryKey :: "Itinerary \<Rightarrow> string" where
  "itineraryKey it = join_gt (map showtimeId (shows_it it))"

text \<open>
  The chains that the loop of \<open>generateItineraries\<close> hands to \<open>finalize\<close>, in
  order: the beam of every step (lemma \<open>search_visited\<close>).
\<close>

fun visited ::
  "(Id \<rightharpoonup> Movie) \<Rightarrow> ScheduledShow list \<Rightarrow> int \<Rightarrow> int \<Rightarrow> jsnum \<Rightarrow> nat \<Rightarrow> Partial list \<Rightarrow> Partial list"
where
  "visited mb shows X T W 0 beam = []"
| "visited mb shows X T W (Suc left) beam =
     beam @ (if expand mb shows X T beam = [] then []
             else visited mb shows X T W left
                    (slice0 (array_sort beamCompare (expand mb shows X T beam)) W))"

text \<open>
  The invariant of every chain of the search, and what it gives for a finished itinerary.
\<close>

definition chain_inv :: "(Id \<rightharpoonup> Movie) \<Rightarrow> ScheduledShow list \<Rightarrow> int \<Rightarrow> int \<Rightarrow> Partial \<Rightarrow> bool" where
  "chain_inv mb shows X T p \<longleftrightarrow>
     shows_p p \<noteq> [] \<and> lastIdx p < length shows \<and> last (shows_p p) = shows ! lastIdx p \<and>
     set (shows_p p) \<subseteq> set shows \<and>
     usedMovieIds p = movieId ` set (shows_p p) \<and>
     usedShowtimeIds p = showtimeId ` set (shows_p p) \<and>
     distinct (map movieId (shows_p p)) \<and> distinct (map showtimeId (shows_p p)) \<and>
     successively (spec_feasible X T) (shows_p p) \<and>
     preferenceScore_p p = sum_list (map (pointsOf mb) (shows_p p))"

definition itin_inv :: "(Id \<rightharpoonup> Movie) \<Rightarrow> ScheduledShow list \<Rightarrow> int \<Rightarrow> int \<Rightarrow> Itinerary \<Rightarrow> bool" where
  "itin_inv mb shows X T it \<longleftrightarrow>
     shows_it it \<noteq> [] \<and> set (shows_it it) \<subseteq> set shows \<and>
     distinct (map movieId (shows_it it)) \<and> distinct (map showtimeId (shows_it it)) \<and>
     successively (spec_feasible X T) (shows_it it) \<and>
     preferenceScore it = sum_list (map (pointsOf mb) (shows_it it)) \<and>
     movieCount it = length (shows_it it) \<and> finishMs it = endMs (last (shows_it it))"

text \<open>
  The three-level order of the specification: preference score descending, then movie
  count descending, then finish instant ascending.
\<close>

definition spec_ranked_before :: "Itinerary \<Rightarrow> Itinerary \<Rightarrow> bool" where
  "spec_ranked_before a b \<longleftrightarrow>
     preferenceScore a > preferenceScore b \<or>
     (preferenceScore a = preferenceScore b \<and>
        (movieCount a > movieCount b \<or>
           (movieCount a = movieCount b \<and> finishMs a \<le> finishMs b)))"

text \<open>
  The comparator of \<open>sortItineraries\<close>, named.
\<close>

definition itineraryCompare :: "Itinerary \<Rightarrow> Itinerary \<Rightarrow> int" where
  "itineraryCompare a b =
     (if preferenceScore b \<noteq> preferenceScore a then preferenceScore b - preferenceScore a
      else if movieCount b \<noteq> movieCount a then int (movieCount b) - int (movieCount a)
      else finishMs a - finishMs b)"

text \<open>
  Example inputs. The date parser of the examples is a table of the timestamps used;
  any other string is an invalid date.
\<close>

definition clock :: "string \<Rightarrow> int option" where
  "clock = map_of [(''2026-01-01T10:00'', 0), (''2026-01-01T10:10'', 600000),
                   (''2026-01-01T10:25'', 1500000), (''2026-01-01T10:35'', 2100000),
                   (''2026-01-01T10:40'', 2400000), (''2026-01-01T10:45'', 2700000),
                   (''2026-01-01T10:54'', 3240000), (''2026-01-01T12:00'', 7200000),
                   (''2026-01-01T12:30'', 9000000)]"

definition movie1 :: Movie where
  "movie1 = \<lparr>id_m = ''m1'', title = ''One'', runtimeMins = 120, rank = Some (Fin 1)\<rparr>"

definition movie2 :: Movie where
  "movie2 = \<lparr>id_m = ''m2'', title = ''Two'', runtimeMins = 90, rank = None\<rparr>"

definition showtime1 :: Showtime where
  "showtime1 = \<lparr>id_st = ''s1'', movieId_st = ''m1'', theaterId_st = ''t1'',
                 startLocal = ''2026-01-01T10:00''\<rparr>"

definition showtime2 :: Showtime where
  "showtime2 = \<lparr>id_st = ''s2'', movieId_st = ''m2'', theaterId_st = ''t1'',
                 startLocal = ''2026-01-01T12:00''\<rparr>"

definition state_of :: "jsnum \<Rightarrow> jsnum \<Rightarrow> Movie list \<Rightarrow> Showtime list \<Rightarrow> AppState" where
  "state_of K W ms sts =
     \<lparr>settings = \<lparr>trailerLeewayMins = 20, travelMins = 15, maxResults = K, beamWidth = W\<rparr>,
      movies = ms, theaters = [\<lparr>id_t = ''t1'', name_t = ''Main''\<rparr>], showtimes = sts\<rparr>"

text \<open>
  A beam width never cuts when, at every step of the loop, \<open>slice\<close> returns the
  whole sorted layer.
\<close>

fun neverCuts ::
  "(Id \<rightharpoonup> Movie) \<Rightarrow> ScheduledShow list \<Rightarrow> int \<Rightarrow> int \<Rightarrow> jsnum \<Rightarrow> nat \<Rightarrow> Partial list \<Rightarrow> bool"
where
  "neverCuts mb shows X T W 0 beam = True"
| "neverCuts mb shows X T W (Suc left) beam =
     (expand mb shows X T beam = [] \<or>
      (slice0 (array_sort beamCompare (expand mb shows X T beam)) W
         = array_sort beamCompare (expand mb shows X T beam) \<and>
       neverCuts mb shows X T W left (array_sort beamCompare (expand mb shows X T beam))))"

definition beamNeverCuts :: "(string \<Rightarrow> int option) \<Rightarrow> AppState \<Rightarrow> jsnum \<Rightarrow> bool" where
  "beamNeverCuts getTime state W =
     neverCuts (movieById (movies state)) (buildScheduledShows getTime state)
       (trailerLeewayMins (settings state)) (travelMins (settings state)) W
       (length (buildScheduledShows getTime state))
       (initial (movieById (movies state)) (buildScheduledShows getTime state))"

text \<open>
  The same state with another beam width, and the best preference score of a result list.
\<close>

definition withBeamWidth :: "jsnum \<Rightarrow> AppState \<Rightarrow> AppState" where
  "withBeamWidth W state = state\<lparr>settings := (settings state)\<lparr>beamWidth := W\<rparr>\<rparr>"

definition bestPreferenceScore :: "Itinerary list \<Rightarrow> int" where
  "bestPreferenceScore its = Max (set (map preferenceScore its))"

text \<open>
  An entry whose movie is gone, an entry whose timestamp is not a date, and a state with both.
\<close>

definition showtime_stale :: Showtime where
  "showtime_stale = \<lparr>id_st = ''s3'', movieId_st = ''gone'', theaterId_st = ''t1'',
                      startLocal = ''2026-01-01T12:30''\<rparr>"

definition showtime_bad :: Showtime where
  "showtime_bad = \<lparr>id_st = ''s4'', movieId_st = ''m2'', theaterId_st = ''t1'',
                    startLocal = ''tomorrow''\<rparr>"

definition demo_state :: AppState where
  "demo_state = state_of (Fin 20) (Fin 200) [movie1, movie2]
                  [showtime2, showtime_stale, showtime1, showtime_bad]"

definition show1 :: ScheduledShow where
  "show1 = \<lparr>showtimeId = ''s1'', movieId = ''m1'', theaterId = ''t1'', startMs = 0, endMs = 7200000\<rparr>"

definition show2 :: ScheduledShow where
  "show2 = \<lparr>showtimeId = ''s2'', movieId = ''m2'', theaterId = ''t1'', startMs = 7200000,
             endMs = 12600000\<rparr>"

definition show3 :: ScheduledShow where
  "show3 = \<lparr>showtimeId = ''s3'', movieId = ''m3'', theaterId = ''t2'', startMs = 7500000,
             endMs = 12900000\<rparr>"

definition demo_itinerary :: Itinerary where
  "demo_itinerary = \<lparr>shows_it = [show1, show2], preferenceScore = 99999, movieCount = 2,
                      finishMs = 12600000, totalTravelMins = 0\<rparr>"

definition demo_unranked :: Itinerary where
  "demo_unranked = \<lparr>shows_it = [show2], preferenceScore = 0, movieCount = 1,
                     finishMs = 12600000, totalTravelMins = 0\<rparr>"

definition state_K0 :: AppState where
  "state_K0 = state_of (Fin 0) (Fin 200) [movie1] [showtime1]"

definition state_W0 :: AppState where
  "state_W0 = state_of (Fin 20) (Fin 0) [movie1, movie2] [showtime1, showtime2]"

definition movie_rank10000 :: Movie where
  "movie_rank10000 = \<lparr>id_m = ''m3'', title = ''Three'', runtimeMins = 100, rank = Some (Fin 10000)\<rparr>"

definition movie_rank10001 :: Movie where
  "movie_rank10001 = \<lparr>id_m = ''m4'', title = ''Four'', runtimeMins = 100, rank = Some (Fin 10001)\<rparr>"

definition movie_rank2 :: Movie where
  "movie_rank2 = \<lparr>id_m = ''m5'', title = ''Five'', runtimeMins = 100, rank = Some (Fin 2)\<rparr>"

text \<open>
  Eight showings in two theaters on which a beam of width 2 does worse than a beam of width 1.
\<close>

definition ranked_movie :: "string \<Rightarrow> int \<Rightarrow> int \<Rightarrow> Movie" where
  "ranked_movie i mins rk = \<lparr>id_m = i, title = i, runtimeMins = mins, rank = Some (Fin rk)\<rparr>"

definition showing :: "string \<Rightarrow> string \<Rightarrow> string \<Rightarrow> Showtime" where
  "showing i th local = \<lparr>id_st = i, movieId_st = i, theaterId_st = th, startLocal = local\<rparr>"

definition beam_state :: AppState where
  "beam_state =
     \<lparr>settings = \<lparr>trailerLeewayMins = 0, travelMins = 15, maxResults = Fin 20, beamWidth = Fin 200\<rparr>,
      movies = [ranked_movie ''A'' 10 1, ranked_movie ''B'' 10 2, ranked_movie ''C'' 30 3,
                ranked_movie ''D'' 10 4, ranked_movie ''E'' 11 5, ranked_movie ''F'' 10 7,
                ranked_movie ''G'' 9 8, ranked_movie ''H'' 9 9],
      theaters = [\<lparr>id_t = ''t1'', name_t = ''Main''\<rparr>, \<lparr>id_t = ''t2'', name_t = ''Annex''\<rparr>],
      showtimes = [showing ''A'' ''t1'' ''2026-01-01T10:00'', showing ''B'' ''t2'' ''2026-01-01T10:25'',
                   showing ''C'' ''t1'' ''2026-01-01T10:10'', showing ''D'' ''t1'' ''2026-01-01T10:40'',
                   showing ''E'' ''t1'' ''2026-01-01T10:40'', showing ''F'' ''t2'' ''2026-01-01T10:35'',
                   showing ''G'' ''t2'' ''2026-01-01T10:45'', showing ''H'' ''t2'' ''2026-01-01T10:54'']\<rparr>"

section \<open>Lemmas and theorems\<close>

lemma clampInt_bounds: "lo \<le> hi \<Longrightarrow> lo \<le> clampInt n lo hi \<and> clampInt n lo hi \<le> hi"
  by (cases n) (simp_all add: clampInt_def)

lemma clampInt_in_range: "lo \<le> v \<Longrightarrow> v \<le> hi \<Longrightarrow> clampInt (Fin v) lo hi = v"
  by (simp add: clampInt_def)

lemma clampInt_mono: "v \<le> w \<Longrightarrow> clampInt (Fin v) lo hi \<le> clampInt (Fin w) lo hi"
  by (simp add: clampInt_def)

lemma points_unranked: "rank (m::Movie) = None \<Longrightarrow> moviePreferencePoints m = 0"
  by (simp add: moviePreferencePoints_def)

lemma points_ranked_bounds:
  "rank (m::Movie) = Some rk \<Longrightarrow> 90001 \<le> moviePreferencePoints m \<and> moviePreferencePoints m \<le> 99999"
  using clampInt_bounds [of 1 9999 rk] by (simp add: moviePreferencePoints_def)

lemma points_nonneg: "0 \<le> moviePreferencePoints (m::Movie)"
  using points_ranked_bounds [of m] by (cases "rank m") (simp_all add: points_unranked)

lemma sum_points_unranked:
  "\<forall>u \<in> set (us::Movie list). rank u = None \<Longrightarrow> sum_list (map moviePreferencePoints us) = 0"
  by (induction us) (simp_all add: points_unranked)

text \<open>
  C3. When \<open>B\<close> starts before \<open>A\<close> starts,
  \<open>canTransition\<close> answers \<open>ok = false\<close> with travel 0. Otherwise
  the travel applied is 0 for the same theater and \<open>T\<close> for different theaters,
  and \<open>ok\<close> holds exactly when the end of \<open>A\<close> plus the travel (in
  milliseconds) is at most the start of \<open>B\<close> plus the leeway \<open>X\<close>.
\<close>

theorem canTransition_spec:
  "(startMs (b::ScheduledShow) < startMs (a::ScheduledShow) \<longrightarrow>
      ok (canTransition a b X T) = False \<and> travelAppliedMins (canTransition a b X T) = 0) \<and>
   (\<not> startMs b < startMs a \<longrightarrow>
      travelAppliedMins (canTransition a b X T) = (if theaterId a = theaterId b then 0 else T) \<and>
      (ok (canTransition a b X T) \<longleftrightarrow>
         endMs a + travelAppliedMins (canTransition a b X T) * 60000 \<le> startMs b + X * 60000))"
  by (simp add: canTransition_def Let_def)

text \<open>
  C9. There are two scheduled shows that overlap in time (\<open>B\<close> starts after
  \<open>A\<close> starts and before \<open>A\<close> ends), at different theaters, with
  non-negative settings, for which \<open>canTransition\<close> answers \<open>ok =
  true\<close>: the guard compares start instants only.
\<close>

theorem canTransition_overlap:
  "\<exists>(a::ScheduledShow) (b::ScheduledShow) X T. startMs a \<le> startMs b \<and> startMs b < endMs a \<and> theaterId a \<noteq> theaterId b \<and>
     0 \<le> X \<and> 0 \<le> T \<and> ok (canTransition a b X T)"
proof -
  let ?a = "\<lparr>showtimeId = ''s1'', movieId = ''m1'', theaterId = ''t1'', startMs = 0, endMs = 6000000\<rparr>"
  let ?b = "\<lparr>showtimeId = ''s2'', movieId = ''m2'', theaterId = ''t2'', startMs = 5400000, endMs = 12000000\<rparr>"
  have "startMs ?a \<le> startMs ?b \<and> startMs ?b < endMs ?a \<and> theaterId ?a \<noteq> theaterId ?b \<and>
     (0::int) \<le> 20 \<and> (0::int) \<le> 5 \<and> ok (canTransition ?a ?b 20 5)"
    by (simp add: canTransition_def)
  then show ?thesis by blast
qed

lemma mset_insort_cmp: "mset (insort_cmp c x xs) = add_mset x (mset xs)"
  by (induction xs) simp_all

lemma mset_array_sort: "mset (array_sort c xs) = mset xs"
  by (induction xs) (simp_all add: mset_insort_cmp)

lemma set_array_sort: "set (array_sort c xs) = set xs"
  using mset_array_sort [of c xs] by (metis set_mset_mset)

lemma length_array_sort: "length (array_sort c xs) = length xs"
  using mset_array_sort [of c xs] by (metis size_mset)

lemma array_sort_Nil_iff: "array_sort c xs = [] \<longleftrightarrow> xs = []"
  using length_array_sort [of c xs] by (metis length_0_conv)

lemma set_insort_cmp: "set (insort_cmp c x xs) = insert x (set xs)"
  using mset_insort_cmp [of c x xs] by (metis set_mset_add_mset_insert set_mset_mset)

lemma sorted_wrt_insort_cmp:
  assumes total: "\<And>a b. c a b \<le> 0 \<or> c b a \<le> 0"
    and trans: "\<And>a b d. c a b \<le> 0 \<Longrightarrow> c b d \<le> 0 \<Longrightarrow> c a d \<le> 0"
  shows "sorted_wrt (\<lambda>a b. c a b \<le> 0) xs \<Longrightarrow> sorted_wrt (\<lambda>a b. c a b \<le> 0) (insort_cmp c x xs)"
proof (induction xs)
  case Nil
  then show ?case by simp
next
  case (Cons y ys)
  show ?case
  proof (cases "c x y \<le> 0")
    case True
    with Cons.prems trans show ?thesis by auto
  next
    case False
    with total have "c y x \<le> 0" by blast
    with False Cons show ?thesis by (auto simp: set_insort_cmp)
  qed
qed

lemma sorted_wrt_array_sort:
  assumes total: "\<And>a b. c a b \<le> 0 \<or> c b a \<le> 0"
    and trans: "\<And>a b d. c a b \<le> 0 \<Longrightarrow> c b d \<le> 0 \<Longrightarrow> c a d \<le> 0"
  shows "sorted_wrt (\<lambda>a b. c a b \<le> 0) (array_sort c xs)"
proof (induction xs)
  case Nil
  show ?case by simp
next
  case (Cons x xs)
  from sorted_wrt_insort_cmp [of c, OF total trans Cons] show ?case by simp
qed

lemma insort_cmp_key: "insort_cmp (\<lambda>a b. f a - f b) x ys = insort_key f x ys" for f :: "'a \<Rightarrow> int"
  by (induction ys) simp_all

lemma array_sort_key: "array_sort (\<lambda>a b. f a - f b) xs = sort_key f xs" for f :: "'a \<Rightarrow> int"
  by (induction xs) (simp_all add: insort_cmp_key)

lemma movieById_foldl:
  "foldl (\<lambda>mp m. mp(id_m m \<mapsto> m)) mp0 ms k = Some (m::Movie) \<Longrightarrow>
     (m \<in> set ms \<and> id_m m = k) \<or> mp0 k = Some m"
proof (induction ms arbitrary: mp0)
  case Nil
  then show ?case by simp
next
  case (Cons a ms)
  from Cons.prems have "foldl (\<lambda>mp m. mp(id_m m \<mapsto> m)) (mp0(id_m a \<mapsto> a)) ms k = Some m"
    by (simp only: foldl_Cons)
  from Cons.IH [OF this] show ?case
    by (auto split: if_splits)
qed

lemma movieById_foldl_None:
  "foldl (\<lambda>mp (m::Movie). mp(id_m m \<mapsto> m)) mp0 ms k = None \<longleftrightarrow> k \<notin> id_m ` set ms \<and> mp0 k = None"
  by (induction ms arbitrary: mp0) auto

lemma movieById_Some: "movieById ms k = Some m \<Longrightarrow> m \<in> set ms \<and> id_m m = k"
  using movieById_foldl [of Map.empty ms k m] by (simp add: movieById_def)

lemma movieById_None: "movieById ms k = None \<longleftrightarrow> k \<notin> id_m ` set ms"
  using movieById_foldl_None [of Map.empty ms k] by (simp add: movieById_def)

lemma buildLoop_map_filter:
  "buildLoop getTime (movieById ms) sts out = out @ List.map_filter (spec_instance getTime ms) sts"
  by (induction sts arbitrary: out)
     (simp_all add: spec_instance_def parseLocalDateTimeToMs_def
        split: option.splits)

lemma buildScheduledShows_sort_key:
  "buildScheduledShows getTime state = sort_key startMs (spec_survivors getTime state)"
  by (simp add: buildScheduledShows_def spec_survivors_def buildLoop_map_filter array_sort_key)

lemma spec_instance_Some:
  "spec_instance getTime ms st = Some s \<Longrightarrow>
     \<exists>m \<in> set ms. id_m m = movieId s \<and> endMs s = startMs s + runtimeMins m * 60000"
proof -
  assume h: "spec_instance getTime ms st = Some s"
  then obtain m t where m: "movieById ms (movieId_st st) = Some m"
    and s: "s = \<lparr>showtimeId = id_st st, movieId = movieId_st st,
                   theaterId = theaterId_st st, startMs = t,
                   endMs = t + runtimeMins m * 60000\<rparr>"
    by (auto simp: spec_instance_def split: option.splits)
  from movieById_Some [OF m] s show ?thesis by auto
qed

text \<open>
  C8. The result of \<open>buildScheduledShows\<close> is sorted by start instant, holds
  exactly the instances of the surviving entries (as a multiset), and keeps entries of equal
  start instant in input order. An entry survives exactly when its movie reference names a
  movie of the collection and its timestamp parses; each surviving instance ends at its
  start plus the runtime of the movie it resolves to, in milliseconds. The function has no
  failing branch.
\<close>

theorem buildScheduledShows_spec:
  "sorted (map startMs (buildScheduledShows getTime state)) \<and>
   mset (buildScheduledShows getTime state) = mset (spec_survivors getTime state) \<and>
   (\<forall>k. filter (\<lambda>s. startMs s = k) (buildScheduledShows getTime state)
        = filter (\<lambda>s. startMs s = k) (spec_survivors getTime state)) \<and>
   (\<forall>st. spec_instance getTime (movies state) st \<noteq> None \<longleftrightarrow>
        movieId_st st \<in> id_m ` set (movies state) \<and> getTime (startLocal st) \<noteq> None) \<and>
   (\<forall>s \<in> set (buildScheduledShows getTime state).
        \<exists>m \<in> set (movies state). id_m m = movieId s \<and>
           movieById (movies state) (movieId s) = Some m \<and>
           endMs s = startMs s + runtimeMins m * 60000)"
proof (intro conjI allI ballI)
  show "sorted (map startMs (buildScheduledShows getTime state))"
    by (simp add: buildScheduledShows_sort_key)
  show "mset (buildScheduledShows getTime state) = mset (spec_survivors getTime state)"
    by (simp add: buildScheduledShows_sort_key)
  show "filter (\<lambda>s. startMs s = k) (buildScheduledShows getTime state)
        = filter (\<lambda>s. startMs s = k) (spec_survivors getTime state)" for k
    by (simp add: buildScheduledShows_sort_key sort_key_stable)
  show "spec_instance getTime (movies state) st \<noteq> None \<longleftrightarrow>
        movieId_st st \<in> id_m ` set (movies state) \<and> getTime (startLocal st) \<noteq> None" for st
    using movieById_None [of "movies state" "movieId_st st"]
    by (auto simp: spec_instance_def split: option.splits)
  fix s assume "s \<in> set (buildScheduledShows getTime state)"
  then have "s \<in> set (spec_survivors getTime state)"
    by (simp add: buildScheduledShows_sort_key)
  then obtain st where "spec_instance getTime (movies state) st = Some s"
    by (auto simp: spec_survivors_def List.map_filter_def)
  then obtain m t where m: "movieById (movies state) (movieId_st st) = Some m"
    and s: "s = \<lparr>showtimeId = id_st st, movieId = movieId_st st,
                   theaterId = theaterId_st st, startMs = t,
                   endMs = t + runtimeMins m * 60000\<rparr>"
    by (auto simp: spec_instance_def split: option.splits)
  from movieById_Some [OF m] m s
  show "\<exists>m \<in> set (movies state). id_m m = movieId s \<and>
           movieById (movies state) (movieId s) = Some m \<and>
           endMs s = startMs s + runtimeMins m * 60000"
    by auto
qed

lemma canTransition_ok: "ok (canTransition a b X T) \<longleftrightarrow> spec_feasible X T a b"
  by (auto simp: canTransition_def spec_feasible_def Let_def)

lemma set_slice0: "set (slice0 xs e) \<subseteq> set xs"
  by (cases e) (auto simp: slice0_def dest: in_set_takeD)

lemma length_slice0: "length (slice0 xs e) \<le> length xs"
  by (cases e) (auto simp: slice0_def)

lemma finalize_eq:
  "finalize st p =
     (if itineraryKey (toItinerary p) \<notin> snd st
      then (fst st @ [toItinerary p], insert (itineraryKey (toItinerary p)) (snd st)) else st)"
  by (simp add: finalize_def toItinerary_def itineraryKey_def Let_def)

lemma search_visited:
  "search mb shows X T W left beam st = foldl finalize st (visited mb shows X T W left beam)"
  by (induction left arbitrary: beam st) (simp_all add: Let_def)

lemma initial_inv: "p \<in> set (initial mb shows) \<Longrightarrow> chain_inv mb shows X T p"
  by (auto simp: initial_def chain_inv_def in_set_zip)

lemma expandOne_inv:
  assumes "chain_inv mb shows X T p"
    and "\<forall>(j, c) \<in> set cands. j < length shows \<and> spec_feasible X T (shows ! lastIdx p) (shows ! j)"
  shows "\<forall>q \<in> set (expandOne mb shows p cands). chain_inv mb shows X T q"
  using assms(2)
proof (induction cands)
  case Nil
  then show ?case by simp
next
  case (Cons jc rest)
  obtain j c where jc: "jc = (j, c)" by (cases jc)
  from Cons.prems jc have j: "j < length shows"
    and f: "spec_feasible X T (shows ! lastIdx p) (shows ! j)" by auto
  from Cons have IH: "\<forall>q \<in> set (expandOne mb shows p rest). chain_inv mb shows X T q" by simp
  let ?q = "\<lparr>lastIdx = j,
         usedMovieIds = insert (movieId (shows ! j)) (usedMovieIds p),
         usedShowtimeIds = insert (showtimeId (shows ! j)) (usedShowtimeIds p),
         shows_p = shows_p p @ [shows ! j],
         preferenceScore_p = preferenceScore_p p + pointsOf mb (shows ! j),
         totalTravelMins_p = totalTravelMins_p p + c\<rparr>"
  have "chain_inv mb shows X T ?q"
    if "showtimeId (shows ! j) \<notin> usedShowtimeIds p" "movieId (shows ! j) \<notin> usedMovieIds p"
    using that assms(1) j f
    by (auto simp: chain_inv_def successively_append_iff)
  with IH show ?case by (simp add: jc Let_def)
qed

lemma zip_nexts:
  "(j, c) \<in> set (zip (nexts_row shows X T i) (travelCost_row shows X T i)) \<Longrightarrow>
     j < length shows \<and> i < j \<and> spec_feasible X T (shows ! i) (shows ! j)"
  by (auto dest!: set_zip_leftD simp: nexts_row_def canTransition_ok)

lemma expand_inv:
  assumes "\<forall>p \<in> set beam. chain_inv mb shows X T p"
  shows "\<forall>q \<in> set (expand mb shows X T beam). chain_inv mb shows X T q"
proof
  fix q assume "q \<in> set (expand mb shows X T beam)"
  then obtain p where p: "p \<in> set beam"
    and q: "q \<in> set (expandOne mb shows p
              (zip (nexts_row shows X T (lastIdx p)) (travelCost_row shows X T (lastIdx p))))"
    by (auto simp: expand_def)
  have "\<forall>(j, c) \<in> set (zip (nexts_row shows X T (lastIdx p)) (travelCost_row shows X T (lastIdx p))).
          j < length shows \<and> spec_feasible X T (shows ! lastIdx p) (shows ! j)"
    using zip_nexts by blast
  from expandOne_inv [OF _ this] assms p q show "chain_inv mb shows X T q" by blast
qed

lemma visited_inv:
  "\<forall>p \<in> set beam. chain_inv mb shows X T p \<Longrightarrow>
   \<forall>p \<in> set (visited mb shows X T W left beam). chain_inv mb shows X T p"
proof (induction left arbitrary: beam)
  case 0
  then show ?case by simp
next
  case (Suc left)
  let ?next = "slice0 (array_sort beamCompare (expand mb shows X T beam)) W"
  have "\<forall>p \<in> set ?next. chain_inv mb shows X T p"
    using expand_inv [OF Suc.prems] set_slice0 [of "array_sort beamCompare (expand mb shows X T beam)" W]
    by (auto simp: set_array_sort)
  from Suc.IH [OF this] Suc.prems show ?case by auto
qed

lemma beam_shows_nonempty:
  "p \<in> set (visited mb shows X T W left (initial mb shows)) \<Longrightarrow>
     shows_p p \<noteq> [] \<and> lastIdx p < length shows"
proof -
  assume p: "p \<in> set (visited mb shows X T W left (initial mb shows))"
  have "\<forall>q \<in> set (visited mb shows X T W left (initial mb shows)). chain_inv mb shows X T q"
    by (rule visited_inv) (simp add: initial_inv)
  with p show ?thesis by (simp add: chain_inv_def)
qed

lemma length_travelCost_row:
  "length (travelCost_row shows X T i) = length (nexts_row shows X T i)"
  by (simp add: travelCost_row_def)

lemma nexts_row_in_range:
  "j \<in> set (nexts_row shows X T i) \<Longrightarrow> i < j \<and> j < length shows"
  by (auto simp: nexts_row_def)

lemma toItinerary_inv: "chain_inv mb shows X T p \<Longrightarrow> itin_inv mb shows X T (toItinerary p)"
  by (simp add: chain_inv_def itin_inv_def toItinerary_def)

lemma set_foldl_finalize:
  "set (fst (foldl finalize st ps)) \<subseteq> set (fst st) \<union> toItinerary ` set ps"
proof (induction ps arbitrary: st)
  case Nil
  show ?case by simp
next
  case (Cons p ps)
  have "set (fst (finalize st p)) \<subseteq> set (fst st) \<union> {toItinerary p}"
    by (auto simp: finalize_eq)
  with Cons [of "finalize st p"] show ?case by auto
qed

lemma prefix_foldl_finalize: "\<exists>more. fst (foldl finalize st ps) = fst st @ more"
proof (induction ps arbitrary: st)
  case Nil
  show ?case by simp
next
  case (Cons p ps)
  from Cons [of "finalize st p"] show ?case by (auto simp: finalize_eq)
qed

lemma keys_foldl_finalize:
  "snd st = itineraryKey ` set (fst st) \<Longrightarrow> distinct (map itineraryKey (fst st)) \<Longrightarrow>
   snd (foldl finalize st ps) = itineraryKey ` set (fst (foldl finalize st ps)) \<and>
   distinct (map itineraryKey (fst (foldl finalize st ps)))"
proof (induction ps arbitrary: st)
  case Nil
  then show ?case by simp
next
  case (Cons p ps)
  have "snd (finalize st p) = itineraryKey ` set (fst (finalize st p))"
    "distinct (map itineraryKey (fst (finalize st p)))"
    using Cons.prems by (auto simp: finalize_eq)
  from Cons.IH [OF this] show ?case by simp
qed

lemma finished_eq:
  "finishedItineraries getTime state =
     fst (foldl finalize ([], {})
       (visited (movieById (movies state)) (buildScheduledShows getTime state)
          (trailerLeewayMins (settings state)) (travelMins (settings state))
          (beamWidth (settings state)) (length (buildScheduledShows getTime state))
          (initial (movieById (movies state)) (buildScheduledShows getTime state))))"
  by (simp add: finishedItineraries_def Let_def search_visited)

lemma finished_inv:
  "it \<in> set (finishedItineraries getTime state) \<Longrightarrow>
   itin_inv (movieById (movies state)) (buildScheduledShows getTime state)
     (trailerLeewayMins (settings state)) (travelMins (settings state)) it"
proof -
  let ?mb = "movieById (movies state)" and ?shows = "buildScheduledShows getTime state"
  let ?X = "trailerLeewayMins (settings state)" and ?T = "travelMins (settings state)"
  let ?vis = "visited ?mb ?shows ?X ?T (beamWidth (settings state)) (length ?shows) (initial ?mb ?shows)"
  assume "it \<in> set (finishedItineraries getTime state)"
  then have "it \<in> toItinerary ` set ?vis"
    using set_foldl_finalize [of "([], {})" ?vis] by (auto simp: finished_eq)
  then obtain p where p: "p \<in> set ?vis" and it: "it = toItinerary p" by blast
  have "\<forall>p \<in> set ?vis. chain_inv ?mb ?shows ?X ?T p"
    by (rule visited_inv) (simp add: initial_inv)
  with p it show ?thesis by (simp add: toItinerary_inv)
qed

lemma finished_keys_distinct: "distinct (map itineraryKey (finishedItineraries getTime state))"
  using keys_foldl_finalize [of "([], {})"] by (simp add: finished_eq)

lemma set_generate:
  "set (generateItineraries getTime state) \<subseteq> set (finishedItineraries getTime state)"
  by (auto simp: generateItineraries_def sortItineraries_def set_array_sort dest: in_set_takeD)

lemma generate_inv:
  "it \<in> set (generateItineraries getTime state) \<Longrightarrow>
   itin_inv (movieById (movies state)) (buildScheduledShows getTime state)
     (trailerLeewayMins (settings state)) (travelMins (settings state)) it"
  using set_generate finished_inv by blast

lemma successively_nth:
  "successively P xs \<Longrightarrow> Suc k < length xs \<Longrightarrow> P (xs ! k) (xs ! Suc k)"
proof (induction P xs arbitrary: k rule: successively.induct)
  case (3 P x y xs)
  then show ?case by (cases k) simp_all
qed simp_all

lemma feasible_sorted:
  "successively (spec_feasible X T) xs \<Longrightarrow> sorted (map startMs xs)"
proof -
  assume "successively (spec_feasible X T) xs"
  then have "successively (\<lambda>a b. startMs a \<le> startMs b) xs"
    by (rule successively_mono) (simp add: spec_feasible_def)
  then have "successively (\<le>) (map startMs xs)" by (simp add: successively_map)
  then show ?thesis
    by (simp add: successively_conv_sorted_wrt)
qed

text \<open>
  C1. Every itinerary returned by \<open>generateItineraries\<close>, for any state and
  settings, has its shows in non-decreasing order of \<open>startMs\<close>, no movie
  identity twice and no showtime identity twice.
\<close>

theorem generateItineraries_chains:
  "\<forall>it \<in> set (generateItineraries getTime state).
     sorted (map startMs (shows_it it)) \<and>
     distinct (map movieId (shows_it it)) \<and>
     distinct (map showtimeId (shows_it it))"
proof
  fix it assume "it \<in> set (generateItineraries getTime state)"
  from generate_inv [OF this] show "sorted (map startMs (shows_it it)) \<and>
     distinct (map movieId (shows_it it)) \<and> distinct (map showtimeId (shows_it it))"
    using feasible_sorted [of _ _ "shows_it it"] by (auto simp: itin_inv_def)
qed

text \<open>
  C2. Every consecutive pair \<open>(A, B)\<close> of shows of every returned itinerary
  satisfies the feasibility rule under the settings of the run: the end of \<open>A\<close>
  plus the applied travel cost (0 in the same theater, otherwise \<open>T\<close> minutes)
  is at most the start of \<open>B\<close> plus \<open>X\<close> minutes, \<open>B\<close>
  does not start before \<open>A\<close> starts, and so \<open>canTransition\<close> accepts
  the pair.
\<close>

theorem generateItineraries_feasible:
  "\<forall>it \<in> set (generateItineraries getTime state).
     \<forall>k. Suc k < length (shows_it it) \<longrightarrow>
       (let A = shows_it it ! k; B = shows_it it ! Suc k;
            X = trailerLeewayMins (settings state); T = travelMins (settings state)
        in endMs A + (if theaterId A = theaterId B then 0 else T) * 60000 \<le> startMs B + X * 60000 \<and>
           \<not> startMs B < startMs A \<and>
           ok (canTransition A B X T))"
proof (intro ballI allI impI)
  fix it k assume it: "it \<in> set (generateItineraries getTime state)"
    and k: "Suc k < length (shows_it it)"
  from generate_inv [OF it]
  have "successively (spec_feasible (trailerLeewayMins (settings state)) (travelMins (settings state)))
          (shows_it it)"
    by (simp add: itin_inv_def)
  from successively_nth [OF this k]
  show "(let A = shows_it it ! k; B = shows_it it ! Suc k;
            X = trailerLeewayMins (settings state); T = travelMins (settings state)
        in endMs A + (if theaterId A = theaterId B then 0 else T) * 60000 \<le> startMs B + X * 60000 \<and>
           \<not> startMs B < startMs A \<and>
           ok (canTransition A B X T))"
    by (simp add: Let_def canTransition_ok) (auto simp: spec_feasible_def split: if_splits)
qed

lemma sortItineraries_eq: "sortItineraries its = array_sort itineraryCompare its"
  by (simp add: sortItineraries_def itineraryCompare_def [abs_def])

lemma itineraryCompare_le: "itineraryCompare a b \<le> 0 \<longleftrightarrow> spec_ranked_before a b"
  by (auto simp: itineraryCompare_def spec_ranked_before_def)

lemma ranked_total: "spec_ranked_before a b \<or> spec_ranked_before b a"
  by (auto simp: spec_ranked_before_def)

lemma ranked_trans: "spec_ranked_before a b \<Longrightarrow> spec_ranked_before b c \<Longrightarrow> spec_ranked_before a c"
  by (auto simp: spec_ranked_before_def)

lemma sorted_sortItineraries: "sorted_wrt spec_ranked_before (sortItineraries its)"
proof -
  have "sorted_wrt (\<lambda>a b. itineraryCompare a b \<le> 0) (array_sort itineraryCompare its)"
    by (rule sorted_wrt_array_sort)
       (use ranked_total ranked_trans in \<open>auto simp: itineraryCompare_le\<close>)
  then show ?thesis by (simp add: sortItineraries_eq itineraryCompare_le)
qed

lemma mset_sortItineraries: "mset (sortItineraries its) = mset its"
  by (simp add: sortItineraries_eq mset_array_sort)

lemma length_sortItineraries: "length (sortItineraries its) = length its"
  by (simp add: sortItineraries_eq length_array_sort)

lemma visited_Nil: "visited mb shows X T W left [] = []"
  by (cases left) (simp_all add: expand_def)

lemma finished_empty:
  "buildScheduledShows getTime state = [] \<Longrightarrow> finishedItineraries getTime state = []"
  by (simp add: finished_eq)

lemma generate_eq:
  "generateItineraries getTime state =
     take (nat (clampInt (maxResults (settings state)) 1 200))
       (sortItineraries (finishedItineraries getTime state))"
  by (cases "buildScheduledShows getTime state = []")
     (simp_all add: generateItineraries_def finished_empty sortItineraries_eq)

lemma length_initial: "length (initial mb shows) = length shows"
  by (simp add: initial_def)

lemma finished_nonempty:
  assumes "buildScheduledShows getTime state \<noteq> []"
  shows "finishedItineraries getTime state \<noteq> []"
proof -
  let ?mb = "movieById (movies state)" and ?shows = "buildScheduledShows getTime state"
  let ?X = "trailerLeewayMins (settings state)" and ?T = "travelMins (settings state)"
  from assms obtain n where n: "length ?shows = Suc n" by (cases ?shows) auto
  from assms obtain p ps where init: "initial ?mb ?shows = p # ps"
    using length_initial [of ?mb ?shows] by (cases "initial ?mb ?shows") auto
  obtain rest where vis:
    "visited ?mb ?shows ?X ?T (beamWidth (settings state)) (length ?shows) (initial ?mb ?shows) = p # rest"
    by (simp add: n init)
  have "fst (finalize ([], {}) p) = [toItinerary p]" by (simp add: finalize_eq)
  with prefix_foldl_finalize [of "finalize ([], {}) p" rest]
  show ?thesis by (auto simp: finished_eq vis)
qed

lemma generate_nonempty:
  assumes "buildScheduledShows getTime state \<noteq> []"
  shows "generateItineraries getTime state \<noteq> []"
proof -
  have "1 \<le> clampInt (maxResults (settings state)) 1 200"
    using clampInt_bounds [of 1 200] by simp
  then have "0 < nat (clampInt (maxResults (settings state)) 1 200)" by simp
  moreover have "sortItineraries (finishedItineraries getTime state) \<noteq> []"
    using finished_nonempty [OF assms] length_sortItineraries [of "finishedItineraries getTime state"]
    by (metis length_0_conv)
  ultimately show ?thesis by (simp add: generate_eq)
qed

lemma generate_empty: "buildScheduledShows getTime state = [] \<Longrightarrow> generateItineraries getTime state = []"
  by (simp add: generateItineraries_def)

lemma length_generate_le:
  "length (generateItineraries getTime state) \<le> nat (clampInt (maxResults (settings state)) 1 200)"
  by (simp add: generate_eq)

lemma initial_singletons: "p \<in> set (initial mb shows) \<Longrightarrow> length (shows_p p) = 1"
  by (auto simp: initial_def)

lemma visited_W0:
  "visited mb shows X T (Fin 0) left beam = (if left = 0 then [] else beam)"
  by (cases left) (simp_all add: slice0_def visited_Nil)

text \<open>
  C10. For every state and all settings, if \<open>buildScheduledShows\<close> yields at
  least one instance then \<open>generateItineraries\<close> returns a non-empty list, and
  the returned list never has more than 200 entries, because \<open>K\<close> is clamped
  into 1..200 before the cut.
\<close>

theorem generateItineraries_nonempty_capped:
  "(buildScheduledShows getTime state \<noteq> [] \<longrightarrow> generateItineraries getTime state \<noteq> []) \<and>
   length (generateItineraries getTime state) \<le> 200 \<and>
   1 \<le> clampInt (maxResults (settings state)) 1 200 \<and>
   clampInt (maxResults (settings state)) 1 200 \<le> 200 \<and>
   generateItineraries getTime state =
     take (nat (clampInt (maxResults (settings state)) 1 200))
       (sortItineraries (finishedItineraries getTime state))"
proof -
  have b: "1 \<le> clampInt (maxResults (settings state)) 1 200 \<and>
           clampInt (maxResults (settings state)) 1 200 \<le> 200"
    using clampInt_bounds [of 1 200] by simp
  with length_generate_le [of getTime state]
  have "length (generateItineraries getTime state) \<le> 200" by linarith
  with b generate_nonempty [of getTime state] generate_eq [of getTime state]
  show ?thesis by blast
qed

text \<open>
  C4. As amended. \<open>generateItineraries\<close> is a total function; its result is
  empty exactly when no scheduled instance survives. With \<open>K = 0\<close> and at least
  one surviving instance the clamp of \<open>K\<close> into 1..200 makes it return exactly
  one itinerary, and with \<open>W = 0\<close> it returns only itineraries of a single show
  (the seeds of the beam, which are emitted before the beam is cut).
\<close>

theorem generateItineraries_degenerate:
  "(generateItineraries getTime state = [] \<longleftrightarrow> buildScheduledShows getTime state = []) \<and>
   (maxResults (settings state) = Fin 0 \<and> buildScheduledShows getTime state \<noteq> [] \<longrightarrow>
      length (generateItineraries getTime state) = 1) \<and>
   (beamWidth (settings state) = Fin 0 \<longrightarrow>
      (\<forall>it \<in> set (generateItineraries getTime state). length (shows_it it) = 1))"
proof (intro conjI impI ballI)
  show "generateItineraries getTime state = [] \<longleftrightarrow> buildScheduledShows getTime state = []"
    using generate_nonempty generate_empty by blast
next
  assume h: "maxResults (settings state) = Fin 0 \<and> buildScheduledShows getTime state \<noteq> []"
  then have "finishedItineraries getTime state \<noteq> []" by (simp add: finished_nonempty)
  then have "1 \<le> length (sortItineraries (finishedItineraries getTime state))"
    by (cases "finishedItineraries getTime state") (simp_all add: length_sortItineraries)
  moreover have "clampInt (maxResults (settings state)) 1 200 = 1"
    using h by (simp add: clampInt_def)
  ultimately show "length (generateItineraries getTime state) = 1"
    by (simp add: generate_eq)
next
  fix it
  assume w: "beamWidth (settings state) = Fin 0" and it: "it \<in> set (generateItineraries getTime state)"
  let ?mb = "movieById (movies state)" and ?shows = "buildScheduledShows getTime state"
  from it set_generate have "it \<in> set (finishedItineraries getTime state)" by blast
  then have "it \<in> toItinerary ` set (initial ?mb ?shows)"
    using set_foldl_finalize [of "([], {})" "initial ?mb ?shows"]
    by (auto simp: finished_eq w visited_W0 split: if_splits)
  then show "length (shows_it it) = 1"
    by (auto simp: toItinerary_def initial_singletons)
qed

text \<open>
  C6. As amended. The result is the deduplicated list \<open>finished\<close>, sorted by
  preference score descending, then movie count descending, then finish instant ascending,
  and cut to \<open>K\<close> clamped into 1..200. So its length is at most \<open>min (max
  K 1) 200\<close>, which is \<open>min K 200\<close> whenever \<open>K\<close> is at least
  1, and at most the number of deduplicated chains found (whose keys are pairwise distinct).
\<close>

theorem generateItineraries_ranked:
  "sorted_wrt spec_ranked_before (generateItineraries getTime state) \<and>
   generateItineraries getTime state =
     take (nat (clampInt (maxResults (settings state)) 1 200))
       (sortItineraries (finishedItineraries getTime state)) \<and>
   sorted_wrt spec_ranked_before (sortItineraries (finishedItineraries getTime state)) \<and>
   mset (sortItineraries (finishedItineraries getTime state))
     = mset (finishedItineraries getTime state) \<and>
   distinct (map itineraryKey (finishedItineraries getTime state)) \<and>
   length (generateItineraries getTime state) \<le> length (finishedItineraries getTime state) \<and>
   length (generateItineraries getTime state) \<le> 200 \<and>
   (\<forall>k. maxResults (settings state) = Fin k \<longrightarrow>
      int (length (generateItineraries getTime state)) \<le> min (max k 1) 200)"
proof (intro conjI allI impI)
  show "sorted_wrt spec_ranked_before (generateItineraries getTime state)"
    by (simp add: generate_eq sorted_wrt_take sorted_sortItineraries)
  show "generateItineraries getTime state =
     take (nat (clampInt (maxResults (settings state)) 1 200))
       (sortItineraries (finishedItineraries getTime state))"
    by (rule generate_eq)
  show "sorted_wrt spec_ranked_before (sortItineraries (finishedItineraries getTime state))"
    by (rule sorted_sortItineraries)
  show "mset (sortItineraries (finishedItineraries getTime state))
     = mset (finishedItineraries getTime state)"
    by (rule mset_sortItineraries)
  show "distinct (map itineraryKey (finishedItineraries getTime state))"
    by (rule finished_keys_distinct)
  show "length (generateItineraries getTime state) \<le> length (finishedItineraries getTime state)"
    by (simp add: generate_eq length_sortItineraries)
  show "length (generateItineraries getTime state) \<le> 200"
    using length_generate_le [of getTime state] clampInt_bounds [of 1 200 "maxResults (settings state)"]
    by linarith
  fix k assume "maxResults (settings state) = Fin k"
  then show "int (length (generateItineraries getTime state)) \<le> min (max k 1) 200"
    using length_generate_le [of getTime state] by (simp add: clampInt_def) linarith
qed

lemma demo_K0:
  "generateItineraries clock (state_of (Fin 0) (Fin 200) [movie1] [showtime1]) =
     [\<lparr>shows_it = [\<lparr>showtimeId = ''s1'', movieId = ''m1'', theaterId = ''t1'', startMs = 0, endMs = 7200000\<rparr>],
       preferenceScore = 99999, movieCount = 1, finishMs = 7200000, totalTravelMins = 0\<rparr>]"
  by code_simp

lemma demo_W0:
  "map (\<lambda>it. map showtimeId (shows_it it))
     (generateItineraries clock (state_of (Fin 20) (Fin 0) [movie1, movie2] [showtime1, showtime2]))
   = [[''s1''], [''s2'']]"
  by code_simp

lemma demo_W2:
  "map (\<lambda>it. map showtimeId (shows_it it))
     (generateItineraries clock (state_of (Fin 20) (Fin 2) [movie1, movie2] [showtime1, showtime2]))
   = [[''s1'', ''s2''], [''s1''], [''s2'']]"
  by code_simp

lemma pointsOf_nonneg: "0 \<le> pointsOf mb s"
  by (simp add: pointsOf_def points_nonneg split: option.splits)

lemma sum_pointsOf_nonneg: "0 \<le> sum_list (map (pointsOf mb) xs)"
  by (induction xs) (simp_all add: pointsOf_nonneg)

lemma sum_pointsOf_ge: "s \<in> set xs \<Longrightarrow> pointsOf mb s \<le> sum_list (map (pointsOf mb) xs)"
proof (induction xs)
  case Nil
  then show ?case by simp
next
  case (Cons x xs)
  show ?case
  proof (cases "s = x")
    case True
    with sum_pointsOf_nonneg [of mb xs] show ?thesis by simp
  next
    case False
    with Cons pointsOf_nonneg [of mb x] show ?thesis by simp
  qed
qed

lemma sum_list_eq_0_iff_int: "(\<And>x. x \<in> set xs \<Longrightarrow> f x = (0::int)) \<Longrightarrow> sum_list (map f xs) = 0"
  by (induction xs) simp_all

lemma ranked_itinerary_dominates:
  assumes it1: "it1 \<in> set (generateItineraries getTime state)"
    and it2: "it2 \<in> set (generateItineraries getTime state)"
    and h1: "\<exists>s \<in> set (shows_it it1). \<exists>mv. movieById (movies state) (movieId s) = Some mv \<and> rank mv \<noteq> None"
    and h2: "\<forall>s \<in> set (shows_it it2). \<forall>mv. movieById (movies state) (movieId s) = Some mv \<longrightarrow> rank mv = None"
  shows "preferenceScore it2 = 0 \<and> preferenceScore it2 < preferenceScore it1"
proof -
  let ?mb = "movieById (movies state)"
  from generate_inv [OF it1] have s1: "preferenceScore it1 = sum_list (map (pointsOf ?mb) (shows_it it1))"
    by (simp add: itin_inv_def)
  from generate_inv [OF it2] have s2: "preferenceScore it2 = sum_list (map (pointsOf ?mb) (shows_it it2))"
    by (simp add: itin_inv_def)
  from h1 obtain s mv where s: "s \<in> set (shows_it it1)" and mv: "?mb (movieId s) = Some mv"
    and rk: "rank mv \<noteq> None" by blast
  from rk obtain r where "rank mv = Some r" by auto
  then have "0 < pointsOf ?mb s"
    using points_ranked_bounds [of mv r] mv by (simp add: pointsOf_def)
  with sum_pointsOf_ge [OF s, of ?mb] s1 have pos: "0 < preferenceScore it1" by simp
  have "pointsOf ?mb s' = 0" if "s' \<in> set (shows_it it2)" for s'
    using h2 that by (auto simp: pointsOf_def points_unranked split: option.splits)
  then have "sum_list (map (pointsOf ?mb) (shows_it it2)) = 0"
    by (rule sum_list_eq_0_iff_int)
  with s2 pos show ?thesis by simp
qed

text \<open>
  C5. As amended. An unranked movie contributes 0. A movie whose rank \<open>r\<close> lies
  in 1..9999 contributes \<open>100000 - r\<close> (a rank outside is clamped into that
  range first). A ranked movie contributes strictly more than any sum of contributions of
  unranked movies, so a returned itinerary that holds a ranked movie has a strictly higher
  preference score than a returned itinerary of unranked movies only, whose score is 0
  whatever its length. Of two ranked movies the one with the lower rank number never
  contributes less, and contributes strictly more when both ranks lie in 1..9999.
\<close>

theorem moviePreferencePoints_spec:
  "(rank (m::Movie) = None \<longrightarrow> moviePreferencePoints m = 0) \<and>
   (\<forall>r. rank m = Some (Fin r) \<and> 1 \<le> r \<and> r \<le> 9999 \<longrightarrow> moviePreferencePoints m = 100000 - r) \<and>
   (rank m \<noteq> None \<longrightarrow>
      (\<forall>us::Movie list. (\<forall>u \<in> set us. rank u = None) \<longrightarrow>
         sum_list (map moviePreferencePoints us) < moviePreferencePoints m)) \<and>
   (\<forall>(m'::Movie) r r'. rank m = Some (Fin r) \<and> rank m' = Some (Fin r') \<and> r < r' \<longrightarrow>
      moviePreferencePoints m' \<le> moviePreferencePoints m \<and>
      (1 \<le> r \<and> r' \<le> 9999 \<longrightarrow> moviePreferencePoints m' < moviePreferencePoints m)) \<and>
   (\<forall>it1 \<in> set (generateItineraries getTime state).
      \<forall>it2 \<in> set (generateItineraries getTime state).
        (\<exists>s \<in> set (shows_it it1). \<exists>mv. movieById (movies state) (movieId s) = Some mv \<and> rank mv \<noteq> None) \<and>
        (\<forall>s \<in> set (shows_it it2). \<forall>mv. movieById (movies state) (movieId s) = Some mv \<longrightarrow> rank mv = None)
        \<longrightarrow> preferenceScore it2 = 0 \<and> preferenceScore it2 < preferenceScore it1)"
proof -
  have c1: "rank m = None \<longrightarrow> moviePreferencePoints m = 0"
    by (simp add: points_unranked)
  have c2: "\<forall>r. rank m = Some (Fin r) \<and> 1 \<le> r \<and> r \<le> 9999 \<longrightarrow> moviePreferencePoints m = 100000 - r"
    by (simp add: moviePreferencePoints_def clampInt_def)
  have c3: "rank m \<noteq> None \<longrightarrow>
      (\<forall>us::Movie list. (\<forall>u \<in> set us. rank u = None) \<longrightarrow>
         sum_list (map moviePreferencePoints us) < moviePreferencePoints m)"
  proof (intro impI allI)
    fix us :: "Movie list" assume r: "rank m \<noteq> None" and u: "\<forall>u \<in> set us. rank u = None"
    from r obtain rk where "rank m = Some rk" by auto
    then have "0 < moviePreferencePoints m" using points_ranked_bounds [of m rk] by simp
    with sum_points_unranked [OF u]
    show "sum_list (map moviePreferencePoints us) < moviePreferencePoints m" by simp
  qed
  have c4: "\<forall>(m'::Movie) r r'. rank m = Some (Fin r) \<and> rank m' = Some (Fin r') \<and> r < r' \<longrightarrow>
      moviePreferencePoints m' \<le> moviePreferencePoints m \<and>
      (1 \<le> r \<and> r' \<le> 9999 \<longrightarrow> moviePreferencePoints m' < moviePreferencePoints m)"
  proof (intro allI impI conjI)
    fix m' :: Movie and r r' assume h: "rank m = Some (Fin r) \<and> rank m' = Some (Fin r') \<and> r < r'"
    then show "moviePreferencePoints m' \<le> moviePreferencePoints m"
      using clampInt_mono [of r r' 1 9999] by (simp add: moviePreferencePoints_def)
  next
    fix m' :: Movie and r r'
    assume "rank m = Some (Fin r) \<and> rank m' = Some (Fin r') \<and> r < r'" and "1 \<le> r \<and> r' \<le> 9999"
    then show "moviePreferencePoints m' < moviePreferencePoints m"
      by (simp add: moviePreferencePoints_def clampInt_def)
  qed
  have c5: "\<forall>it1 \<in> set (generateItineraries getTime state).
      \<forall>it2 \<in> set (generateItineraries getTime state).
        (\<exists>s \<in> set (shows_it it1). \<exists>mv. movieById (movies state) (movieId s) = Some mv \<and> rank mv \<noteq> None) \<and>
        (\<forall>s \<in> set (shows_it it2). \<forall>mv. movieById (movies state) (movieId s) = Some mv \<longrightarrow> rank mv = None)
        \<longrightarrow> preferenceScore it2 = 0 \<and> preferenceScore it2 < preferenceScore it1"
    using ranked_itinerary_dominates [of _ getTime state] by blast
  show ?thesis
    by (rule conjI [OF c1 conjI [OF c2 conjI [OF c3 conjI [OF c4 c5]]]])
qed

lemma set_expand_mono:
  "set beam \<subseteq> set beam' \<Longrightarrow> set (expand mb shows X T beam) \<subseteq> set (expand mb shows X T beam')"
  by (auto simp: expand_def)

lemma visited_mono:
  "neverCuts mb shows X T W' left beam' \<Longrightarrow> set beam \<subseteq> set beam' \<Longrightarrow>
   set (visited mb shows X T W left beam) \<subseteq> set (visited mb shows X T W' left beam')"
proof (induction left arbitrary: beam beam')
  case 0
  show ?case by simp
next
  case (Suc left)
  let ?e = "expand mb shows X T beam" and ?e' = "expand mb shows X T beam'"
  from Suc.prems(2) have sub: "set ?e \<subseteq> set ?e'" by (rule set_expand_mono)
  show ?case
  proof (cases "?e = []")
    case True
    with Suc.prems(2) show ?thesis by auto
  next
    case False
    with sub have ne: "?e' \<noteq> []" by auto
    with Suc.prems(1) have keep: "slice0 (array_sort beamCompare ?e') W' = array_sort beamCompare ?e'"
      and nc: "neverCuts mb shows X T W' left (array_sort beamCompare ?e')" by auto
    have "set (slice0 (array_sort beamCompare ?e) W) \<subseteq> set (array_sort beamCompare ?e')"
      using set_slice0 [of "array_sort beamCompare ?e" W] sub by (auto simp: set_array_sort)
    from Suc.IH [OF nc this] have
      "set (visited mb shows X T W left (slice0 (array_sort beamCompare ?e) W))
         \<subseteq> set (visited mb shows X T W' left (array_sort beamCompare ?e'))" .
    with False ne keep Suc.prems(2) show ?thesis by auto
  qed
qed

lemma neverCuts_PosInf: "neverCuts mb shows X T PosInf left beam"
  by (induction left arbitrary: beam) (simp_all add: slice0_def)

lemma foldl_finalize_covers:
  "snd st = itineraryKey ` set (fst st) \<Longrightarrow> p \<in> set ps \<Longrightarrow>
   \<exists>it \<in> set (fst (foldl finalize st ps)). itineraryKey it = itineraryKey (toItinerary p)"
proof (induction ps arbitrary: st)
  case Nil
  then show ?case by simp
next
  case (Cons q ps)
  have inv: "snd (finalize st q) = itineraryKey ` set (fst (finalize st q))"
    using Cons.prems(1) by (auto simp: finalize_eq)
  show ?case
  proof (cases "p \<in> set ps")
    case True
    from Cons.IH [OF inv True] show ?thesis by simp
  next
    case False
    with Cons.prems(2) have pq: "p = q" by simp
    have "\<exists>it \<in> set (fst (finalize st q)). itineraryKey it = itineraryKey (toItinerary q)"
      using Cons.prems(1) by (auto simp: finalize_eq)
    moreover obtain more where "fst (foldl finalize (finalize st q) ps) = fst (finalize st q) @ more"
      using prefix_foldl_finalize by blast
    ultimately show ?thesis using pq by auto
  qed
qed

lemma first_separator:
  "c \<notin> set s \<Longrightarrow> c \<notin> set u \<Longrightarrow> s @ c # A = u @ c # B \<Longrightarrow> s = u \<and> A = B"
proof (induction s arbitrary: u)
  case Nil
  then show ?case by (cases u) auto
next
  case (Cons x s)
  then show ?case by (cases u) auto
qed

lemma join_gt_Cons: "ts \<noteq> [] \<Longrightarrow> join_gt (s # ts) = s @ CHR ''>'' # join_gt ts"
  by (cases ts) simp_all

lemma join_gt_single: "join_gt [s] = s"
  by simp

lemma join_gt_inj:
  assumes "\<forall>s \<in> set xs. CHR ''>'' \<notin> set s" "\<forall>s \<in> set ys. CHR ''>'' \<notin> set s"
    and "xs \<noteq> []" "ys \<noteq> []" "join_gt xs = join_gt ys"
  shows "xs = ys"
  using assms
proof (induction xs arbitrary: ys)
  case Nil
  then show ?case by simp
next
  case (Cons s ts)
  from Cons.prems(4) obtain u vs where ys: "ys = u # vs" by (cases ys) auto
  from Cons.prems(1) have s: "CHR ''>'' \<notin> set s" by simp
  from Cons.prems(2) ys have u: "CHR ''>'' \<notin> set u" by simp
  show ?case
  proof (cases "ts = []")
    case True
    show ?thesis
    proof (cases "vs = []")
      case True
      with \<open>ts = []\<close> Cons.prems(5) ys show ?thesis by simp
    next
      case False
      with \<open>ts = []\<close> Cons.prems(5) ys have "s = u @ CHR ''>'' # join_gt vs"
        by (simp add: join_gt_Cons)
      with s show ?thesis by simp
    qed
  next
    case False
    show ?thesis
    proof (cases "vs = []")
      case True
      with False Cons.prems(5) ys have "u = s @ CHR ''>'' # join_gt ts"
        by (simp add: join_gt_Cons)
      with u show ?thesis by simp
    next
      case vs: False
      from False vs Cons.prems(5) ys have "s @ CHR ''>'' # join_gt ts = u @ CHR ''>'' # join_gt vs"
        by (simp add: join_gt_Cons)
      from first_separator [OF s u this] have su: "s = u" and j: "join_gt ts = join_gt vs" by auto
      from Cons.IH [of vs] Cons.prems(1,2) ys False vs j have "ts = vs" by simp
      with su ys show ?thesis by simp
    qed
  qed
qed

lemma length_expandOne: "length (expandOne mb shows p cands) \<le> length cands"
proof (induction cands)
  case Nil
  show ?case by simp
next
  case (Cons jc rest)
  obtain j c where "jc = (j, c)" by (cases jc)
  with Cons show ?case by (simp add: Let_def)
qed

lemma length_nexts_row: "length (nexts_row shows X T i) \<le> length shows"
proof -
  have "length (nexts_row shows X T i) \<le> length [i + 1 ..< length shows]"
    unfolding nexts_row_def by (rule length_filter_le)
  then show ?thesis by simp
qed

lemma length_expand: "length (expand mb shows X T beam) \<le> length shows * length beam"
proof (induction beam)
  case Nil
  show ?case by (simp add: expand_def)
next
  case (Cons p beam)
  have "length (expandOne mb shows p
          (zip (nexts_row shows X T (lastIdx p)) (travelCost_row shows X T (lastIdx p))))
        \<le> length shows"
    using length_expandOne [of mb "shows" p
            "zip (nexts_row shows X T (lastIdx p)) (travelCost_row shows X T (lastIdx p))"]
          length_nexts_row [of "shows" X T "lastIdx p"]
    by simp
  with Cons show ?case by (simp add: expand_def)
qed

lemma slice0_keeps: "int (length xs) \<le> w \<Longrightarrow> slice0 xs (Fin w) = xs"
  by (simp add: slice0_def)

lemma neverCuts_bound:
  "left \<le> length shows \<Longrightarrow> length beam \<le> length shows ^ (Suc (length shows) - left) \<Longrightarrow>
   int (length shows ^ Suc (length shows)) \<le> w \<Longrightarrow>
   neverCuts mb shows X T (Fin w) left beam"
proof (induction left arbitrary: beam)
  case 0
  show ?case by simp
next
  case (Suc left)
  let ?n = "length shows"
  let ?e = "array_sort beamCompare (expand mb shows X T beam)"
  from Suc.prems(1) have "Suc (?n - Suc left) = ?n - left" by simp
  have "length ?e \<le> ?n * length beam"
    by (simp add: length_array_sort length_expand)
  also have "\<dots> \<le> ?n * ?n ^ (Suc ?n - Suc left)"
    using Suc.prems(2) by (rule mult_le_mono2)
  also have "\<dots> = ?n ^ (Suc ?n - left)"
    using Suc.prems(1) by (simp add: Suc_diff_le)
  finally have len: "length ?e \<le> ?n ^ (Suc ?n - left)" .
  have "?n ^ (Suc ?n - left) \<le> ?n ^ Suc ?n"
  proof (cases "?n = 0")
    case True
    with Suc.prems(1) show ?thesis by simp
  next
    case False
    then have "1 \<le> ?n" by (cases "shows") simp_all
    then show ?thesis by (intro power_increasing) simp_all
  qed
  with len Suc.prems(3) have "int (length ?e) \<le> w" by linarith
  then have keep: "slice0 ?e (Fin w) = ?e" by (rule slice0_keeps)
  from Suc.prems(1) have "left \<le> ?n" by simp
  from Suc.IH [OF this len Suc.prems(3)] keep show ?case by simp
qed

lemma beamNeverCuts_PosInf: "beamNeverCuts getTime state PosInf"
  by (simp add: beamNeverCuts_def neverCuts_PosInf)

lemma beamNeverCuts_wide:
  assumes "int (length (buildScheduledShows getTime state)
              ^ Suc (length (buildScheduledShows getTime state))) \<le> w"
  shows "beamNeverCuts getTime state (Fin w)"
  unfolding beamNeverCuts_def
  by (rule neverCuts_bound) (use assms in \<open>simp_all add: length_initial\<close>)

lemma spec_instance_showtimeId: "spec_instance getTime ms st = Some s \<Longrightarrow> showtimeId s = id_st st"
  by (auto simp: spec_instance_def split: option.splits)

lemma survivors_ids:
  "map showtimeId (List.map_filter (spec_instance getTime ms) sts) =
   map id_st (filter (\<lambda>st. spec_instance getTime ms st \<noteq> None) sts)"
  by (induction sts) (auto simp: List.map_filter_simps spec_instance_showtimeId split: option.splits)

lemma shows_ids_distinct:
  assumes "distinct (map id_st (showtimes state))"
  shows "distinct (map showtimeId (buildScheduledShows getTime state))"
proof -
  have "distinct (map showtimeId (spec_survivors getTime state))"
    using assms by (simp add: spec_survivors_def survivors_ids distinct_map_filter)
  moreover have "mset (map showtimeId (buildScheduledShows getTime state))
      = mset (map showtimeId (spec_survivors getTime state))"
    by (simp add: buildScheduledShows_sort_key)
  ultimately show ?thesis by (metis mset_eq_imp_distinct_iff)
qed

lemma shows_ids_clean:
  assumes "\<forall>st \<in> set (showtimes state). CHR ''>'' \<notin> set (id_st st)"
    and "s \<in> set (buildScheduledShows getTime state)"
  shows "CHR ''>'' \<notin> set (showtimeId s)"
proof -
  from assms(2) have "showtimeId s \<in> set (map showtimeId (spec_survivors getTime state))"
    by (simp add: buildScheduledShows_sort_key)
  then have "showtimeId s \<in> id_st ` set (showtimes state)"
    by (auto simp: spec_survivors_def survivors_ids)
  with assms(1) show ?thesis by auto
qed

lemma itin_key_inj:
  assumes a: "itin_inv mb shows X T it" and b: "itin_inv mb shows X T it'"
    and d: "distinct (map showtimeId shows)"
    and c: "\<forall>s \<in> set shows. CHR ''>'' \<notin> set (showtimeId s)"
    and k: "itineraryKey it = itineraryKey it'"
  shows "preferenceScore it = preferenceScore it'"
proof -
  from a b have sub: "set (shows_it it) \<subseteq> set shows" "set (shows_it it') \<subseteq> set shows"
    and ne: "shows_it it \<noteq> []" "shows_it it' \<noteq> []"
    by (simp_all add: itin_inv_def)
  have "map showtimeId (shows_it it) = map showtimeId (shows_it it')"
  proof (rule join_gt_inj)
    show "\<forall>s \<in> set (map showtimeId (shows_it it)). CHR ''>'' \<notin> set s" using sub(1) c by auto
    show "\<forall>s \<in> set (map showtimeId (shows_it it')). CHR ''>'' \<notin> set s" using sub(2) c by auto
    show "map showtimeId (shows_it it) \<noteq> []" using ne(1) by simp
    show "map showtimeId (shows_it it') \<noteq> []" using ne(2) by simp
    show "join_gt (map showtimeId (shows_it it)) = join_gt (map showtimeId (shows_it it'))"
      using k by (simp add: itineraryKey_def)
  qed
  moreover have "inj_on showtimeId (set (shows_it it) \<union> set (shows_it it'))"
    using d sub by (meson distinct_map inj_on_subset le_sup_iff)
  ultimately have "shows_it it = shows_it it'" by (simp add: inj_on_map_eq_map)
  with a b show ?thesis by (simp add: itin_inv_def)
qed

lemma ranked_head_best:
  "sorted_wrt spec_ranked_before (h # t) \<Longrightarrow> x \<in> set (h # t) \<Longrightarrow> preferenceScore x \<le> preferenceScore h"
  by (auto simp: spec_ranked_before_def)

lemma withBeamWidth_simps:
  "buildScheduledShows getTime (withBeamWidth W state) = buildScheduledShows getTime state"
  "movies (withBeamWidth W state) = movies state"
  "showtimes (withBeamWidth W state) = showtimes state"
  "trailerLeewayMins (settings (withBeamWidth W state)) = trailerLeewayMins (settings state)"
  "travelMins (settings (withBeamWidth W state)) = travelMins (settings state)"
  "maxResults (settings (withBeamWidth W state)) = maxResults (settings state)"
  "beamWidth (settings (withBeamWidth W state)) = W"
  by (simp_all add: withBeamWidth_def buildScheduledShows_def)

lemma generate_best:
  assumes "it0 \<in> set (finishedItineraries getTime state)"
  shows "\<exists>it' \<in> set (generateItineraries getTime state). preferenceScore it0 \<le> preferenceScore it'"
proof -
  let ?srt = "sortItineraries (finishedItineraries getTime state)"
  have "it0 \<in> set ?srt"
    using assms mset_sortItineraries [of "finishedItineraries getTime state"]
    by (metis set_mset_mset)
  then obtain h t where ht: "?srt = h # t" by (cases ?srt) auto
  with \<open>it0 \<in> set ?srt\<close> sorted_sortItineraries [of "finishedItineraries getTime state"]
  have le: "preferenceScore it0 \<le> preferenceScore h" using ranked_head_best by metis
  have "1 \<le> clampInt (maxResults (settings state)) 1 200"
    using clampInt_bounds [of 1 200] by simp
  then obtain k where "nat (clampInt (maxResults (settings state)) 1 200) = Suc k"
    by (cases "nat (clampInt (maxResults (settings state)) 1 200)") auto
  then have "h \<in> set (generateItineraries getTime state)"
    by (simp add: generate_eq ht)
  with le show ?thesis by blast
qed

lemma beam_exhaustive_dominates:
  assumes clean: "\<forall>st \<in> set (showtimes state). CHR ''>'' \<notin> set (id_st st)"
    and dist: "distinct (map id_st (showtimes state))"
    and wide: "beamNeverCuts getTime state W'"
    and it: "it \<in> set (generateItineraries getTime (withBeamWidth W state))"
  shows "\<exists>it' \<in> set (generateItineraries getTime (withBeamWidth W' state)).
           preferenceScore it \<le> preferenceScore it'"
proof -
  let ?mb = "movieById (movies state)" and ?shows = "buildScheduledShows getTime state"
  let ?X = "trailerLeewayMins (settings state)" and ?T = "travelMins (settings state)"
  let ?n = "length ?shows"
  let ?vis = "\<lambda>w. visited ?mb ?shows ?X ?T w ?n (initial ?mb ?shows)"
  have fin: "finishedItineraries getTime (withBeamWidth w state)
               = fst (foldl finalize ([], {}) (?vis w))" for w
    by (simp add: finished_eq withBeamWidth_simps)
  from it set_generate have itf: "it \<in> set (finishedItineraries getTime (withBeamWidth W state))"
    by blast
  then have "it \<in> toItinerary ` set (?vis W)"
    using set_foldl_finalize [of "([], {})" "?vis W"] by (auto simp: fin)
  then obtain p where p: "p \<in> set (?vis W)" and itp: "it = toItinerary p" by blast
  from wide have "neverCuts ?mb ?shows ?X ?T W' ?n (initial ?mb ?shows)"
    by (simp add: beamNeverCuts_def)
  from visited_mono [OF this subset_refl, of W] p have "p \<in> set (?vis W')" by blast
  from foldl_finalize_covers [of "([], {})", OF _ this]
  obtain it0 where it0: "it0 \<in> set (finishedItineraries getTime (withBeamWidth W' state))"
    and key: "itineraryKey it0 = itineraryKey it"
    by (auto simp: fin itp)
  have "itin_inv ?mb ?shows ?X ?T it"
    using finished_inv [OF itf] by (simp add: withBeamWidth_simps)
  moreover have "itin_inv ?mb ?shows ?X ?T it0"
    using finished_inv [OF it0] by (simp add: withBeamWidth_simps)
  moreover note shows_ids_distinct [OF dist, of getTime]
  moreover have "\<forall>s \<in> set ?shows. CHR ''>'' \<notin> set (showtimeId s)"
    using shows_ids_clean [OF clean] by blast
  ultimately have "preferenceScore it = preferenceScore it0"
    using key by (metis itin_key_inj)
  with generate_best [OF it0] show ?thesis by simp
qed

lemma generate_withBeamWidth_empty:
  "generateItineraries getTime (withBeamWidth W state) = [] \<longleftrightarrow>
   buildScheduledShows getTime state = []"
  using generate_nonempty [of getTime "withBeamWidth W state"]
        generate_empty [of getTime "withBeamWidth W state"]
  by (auto simp: withBeamWidth_simps)

text \<open>
  C7. As amended. Widening the beam does not always help; what holds is that a beam that
  never cuts a layer does at least as well as any beam width. When no showtime identifier
  contains the separator \<open>>\<close> of the deduplication key, the showtime identifiers
  are pairwise distinct, and the search run with \<open>W'\<close> keeps every expanded
  layer whole, then for every itinerary returned with any beam width \<open>W\<close> the
  run with \<open>W'\<close> returns one whose preference score is at least as high, so the
  best score with \<open>W'\<close> is at least the best score with \<open>W\<close>. An
  infinite \<open>W'\<close> never cuts, and neither does a finite one of at least \<open>n
  ^ (n + 1)\<close> for \<open>n\<close> surviving instances.
\<close>

theorem generateItineraries_beam_exhaustive:
  "((\<forall>st \<in> set (showtimes state). CHR ''>'' \<notin> set (id_st st)) \<and>
    distinct (map id_st (showtimes state)) \<and>
    beamNeverCuts getTime state W' \<longrightarrow>
      (\<forall>it \<in> set (generateItineraries getTime (withBeamWidth W state)).
         \<exists>it' \<in> set (generateItineraries getTime (withBeamWidth W' state)).
           preferenceScore it \<le> preferenceScore it') \<and>
      (generateItineraries getTime (withBeamWidth W state) \<noteq> [] \<longrightarrow>
         bestPreferenceScore (generateItineraries getTime (withBeamWidth W state))
           \<le> bestPreferenceScore (generateItineraries getTime (withBeamWidth W' state)))) \<and>
   beamNeverCuts getTime state PosInf \<and>
   (\<forall>w. int (length (buildScheduledShows getTime state)
                ^ Suc (length (buildScheduledShows getTime state))) \<le> w \<longrightarrow>
        beamNeverCuts getTime state (Fin w))"
proof (intro impI conjI ballI allI)
  show "beamNeverCuts getTime state PosInf" by (rule beamNeverCuts_PosInf)
next
  fix w
  assume "int (length (buildScheduledShows getTime state)
                ^ Suc (length (buildScheduledShows getTime state))) \<le> w"
  then show "beamNeverCuts getTime state (Fin w)" by (rule beamNeverCuts_wide)
next
  fix it
  assume h: "(\<forall>st \<in> set (showtimes state). CHR ''>'' \<notin> set (id_st st)) \<and>
   distinct (map id_st (showtimes state)) \<and> beamNeverCuts getTime state W'"
    and it: "it \<in> set (generateItineraries getTime (withBeamWidth W state))"
  with beam_exhaustive_dominates [of state getTime W' it W]
  show "\<exists>it' \<in> set (generateItineraries getTime (withBeamWidth W' state)).
          preferenceScore it \<le> preferenceScore it'" by blast
next
  let ?g = "generateItineraries getTime (withBeamWidth W state)"
  let ?g' = "generateItineraries getTime (withBeamWidth W' state)"
  assume h: "(\<forall>st \<in> set (showtimes state). CHR ''>'' \<notin> set (id_st st)) \<and>
   distinct (map id_st (showtimes state)) \<and> beamNeverCuts getTime state W'"
    and ne: "?g \<noteq> []"
  from ne have ne': "?g' \<noteq> []" by (simp add: generate_withBeamWidth_empty)
  have "Max (preferenceScore ` set ?g) \<le> Max (preferenceScore ` set ?g')"
  proof (rule Max.boundedI)
    show "finite (preferenceScore ` set ?g)" by simp
    show "preferenceScore ` set ?g \<noteq> {}" using ne by simp
    fix a assume "a \<in> preferenceScore ` set ?g"
    then obtain it where it: "it \<in> set ?g" and a: "a = preferenceScore it" by blast
    from beam_exhaustive_dominates [of state getTime W' it W] h it
    obtain it' where "it' \<in> set ?g'" and le: "preferenceScore it \<le> preferenceScore it'" by blast
    then have "preferenceScore it' \<le> Max (preferenceScore ` set ?g')" by simp
    with le a show "a \<le> Max (preferenceScore ` set ?g')" by simp
  qed
  then show "bestPreferenceScore ?g \<le> bestPreferenceScore ?g'"
    by (simp add: bestPreferenceScore_def)
qed

lemma demo_build: "buildScheduledShows clock demo_state = [show1, show2]"
  by code_simp

lemma demo_generate:
  "generateItineraries clock demo_state =
     [demo_itinerary,
      \<lparr>shows_it = [show1], preferenceScore = 99999, movieCount = 1,
        finishMs = 7200000, totalTravelMins = 0\<rparr>,
      demo_unranked]"
  by code_simp

lemma demo_settings:
  "trailerLeewayMins (settings demo_state) = 20" "travelMins (settings demo_state) = 15"
  "maxResults (settings demo_state) = Fin 20" "beamWidth (settings demo_state) = Fin 200"
  "movies demo_state = [movie1, movie2]"
  by (simp_all add: demo_state_def state_of_def)

lemma demo_K0_generate: "length (generateItineraries clock state_K0) = 1"
  by code_simp

lemma demo_K0_build: "buildScheduledShows clock state_K0 = [show1]"
  by code_simp

lemma demo_W0_generate:
  "map shows_it (generateItineraries clock state_W0) = [[show1], [show2]]"
  by code_simp

theorem generateItineraries_chains_witness:
  "demo_itinerary \<in> set (generateItineraries clock demo_state) \<and>
   sorted (map startMs (shows_it demo_itinerary)) \<and>
   distinct (map movieId (shows_it demo_itinerary)) \<and>
   distinct (map showtimeId (shows_it demo_itinerary))"
  using generateItineraries_chains [of clock demo_state] by (simp add: demo_generate)

theorem generateItineraries_feasible_witness:
  "demo_itinerary \<in> set (generateItineraries clock demo_state) \<and>
   Suc 0 < length (shows_it demo_itinerary) \<and>
   endMs show1 + 0 * 60000 \<le> startMs show2 + 20 * 60000 \<and>
   \<not> startMs show2 < startMs show1 \<and>
   ok (canTransition show1 show2 20 15)"
proof -
  have mem: "demo_itinerary \<in> set (generateItineraries clock demo_state)"
    by (simp add: demo_generate)
  have len: "Suc 0 < length (shows_it demo_itinerary)"
    by (simp add: demo_itinerary_def)
  from generateItineraries_feasible [of clock demo_state] mem len
  have "(let A = shows_it demo_itinerary ! 0; B = shows_it demo_itinerary ! Suc 0;
            X = trailerLeewayMins (settings demo_state); T = travelMins (settings demo_state)
        in endMs A + (if theaterId A = theaterId B then 0 else T) * 60000 \<le> startMs B + X * 60000 \<and>
           \<not> startMs B < startMs A \<and> ok (canTransition A B X T))"
    by blast
  with mem len show ?thesis
    by (simp add: demo_settings demo_itinerary_def show1_def show2_def Let_def)
qed

theorem canTransition_spec_witness:
  "startMs show1 < startMs show2 \<and>
   ok (canTransition show2 show1 20 15) = False \<and>
   travelAppliedMins (canTransition show2 show1 20 15) = 0 \<and>
   \<not> startMs show3 < startMs show1 \<and>
   travelAppliedMins (canTransition show1 show3 20 15) = 15 \<and>
   ok (canTransition show1 show3 20 15) \<and>
   endMs show1 + 15 * 60000 \<le> startMs show3 + 20 * 60000"
  using canTransition_spec [where a = show2 and b = show1 and X = 20 and T = 15]
        canTransition_spec [where a = show1 and b = show3 and X = 20 and T = 15]
  by (simp add: show1_def show2_def show3_def)

theorem generateItineraries_degenerate_witness:
  "maxResults (settings state_K0) = Fin 0 \<and> buildScheduledShows clock state_K0 \<noteq> [] \<and>
   length (generateItineraries clock state_K0) = 1 \<and>
   beamWidth (settings state_W0) = Fin 0 \<and>
   generateItineraries clock state_W0 \<noteq> [] \<and>
   length (shows_it (hd (generateItineraries clock state_W0))) = 1"
proof -
  have k: "maxResults (settings state_K0) = Fin 0 \<and> buildScheduledShows clock state_K0 \<noteq> []"
    by (simp add: demo_K0_build) (simp add: state_K0_def state_of_def)
  have w: "beamWidth (settings state_W0) = Fin 0"
    by (simp add: state_W0_def state_of_def)
  have n: "generateItineraries clock state_W0 \<noteq> []"
    using demo_W0_generate by auto
  then have h: "hd (generateItineraries clock state_W0) \<in> set (generateItineraries clock state_W0)"
    by simp
  from generateItineraries_degenerate [of clock state_K0] k
  have "length (generateItineraries clock state_K0) = 1" by blast
  moreover from generateItineraries_degenerate [of clock state_W0] w h
  have "length (shows_it (hd (generateItineraries clock state_W0))) = 1" by blast
  ultimately show ?thesis using k w n by blast
qed

text \<open>
  C4. The claim as stated fails: with one movie and one showtime, \<open>K = 0\<close> gives
  a result that is not empty, and so does \<open>W = 0\<close>.
\<close>

theorem generateItineraries_degenerate_counterexample:
  "maxResults (settings state_K0) = Fin 0 \<and> generateItineraries clock state_K0 \<noteq> [] \<and>
   beamWidth (settings state_W0) = Fin 0 \<and> generateItineraries clock state_W0 \<noteq> []"
proof -
  have "generateItineraries clock state_K0 \<noteq> []"
    using demo_K0_generate by auto
  moreover have "generateItineraries clock state_W0 \<noteq> []"
    using demo_W0_generate by auto
  ultimately show ?thesis
    by (simp add: state_K0_def state_W0_def state_of_def)
qed

lemma demo_movieById:
  "movieById (movies demo_state) ''m1'' = Some movie1"
  "movieById (movies demo_state) ''m2'' = Some movie2"
  by (simp_all add: demo_settings movieById_def movie1_def movie2_def)

theorem moviePreferencePoints_spec_witness:
  "rank movie2 = None \<and> moviePreferencePoints movie2 = 0 \<and>
   rank movie1 = Some (Fin 1) \<and> moviePreferencePoints movie1 = 100000 - 1 \<and>
   sum_list (map moviePreferencePoints [movie2, movie2, movie2]) < moviePreferencePoints movie1 \<and>
   rank movie_rank2 = Some (Fin 2) \<and>
   moviePreferencePoints movie_rank2 < moviePreferencePoints movie1 \<and>
   demo_itinerary \<in> set (generateItineraries clock demo_state) \<and>
   demo_unranked \<in> set (generateItineraries clock demo_state) \<and>
   preferenceScore demo_unranked < preferenceScore demo_itinerary"
proof -
  note ranked = moviePreferencePoints_spec [where m = movie1 and getTime = clock and state = demo_state]
  note unranked = moviePreferencePoints_spec [where m = movie2 and getTime = clock and state = demo_state]
  have r: "rank movie2 = None" "rank movie1 = Some (Fin 1)" "rank movie_rank2 = Some (Fin 2)"
    by (simp_all add: movie1_def movie2_def movie_rank2_def)
  have u: "\<forall>u \<in> set [movie2, movie2, movie2]. rank u = None"
    by (simp add: movie2_def)
  from unranked [THEN conjunct1] r
  have a: "moviePreferencePoints movie2 = 0" by blast
  from ranked [THEN conjunct2, THEN conjunct1, rule_format, of 1] r
  have b: "moviePreferencePoints movie1 = 100000 - 1" by simp
  have "rank movie1 \<noteq> None" using r by simp
  from ranked [THEN conjunct2, THEN conjunct2, THEN conjunct1, rule_format, OF this,
               of "[movie2, movie2, movie2]"] u
  have c: "sum_list (map moviePreferencePoints [movie2, movie2, movie2]) < moviePreferencePoints movie1"
    by blast
  from ranked [THEN conjunct2, THEN conjunct2, THEN conjunct2, THEN conjunct1, rule_format,
               of 1 movie_rank2 2] r
  have d: "moviePreferencePoints movie_rank2 < moviePreferencePoints movie1"
    by simp
  have m1: "demo_itinerary \<in> set (generateItineraries clock demo_state)"
    and m2: "demo_unranked \<in> set (generateItineraries clock demo_state)"
    by (simp_all add: demo_generate)
  have h1: "\<exists>s \<in> set (shows_it demo_itinerary).
              \<exists>mv. movieById (movies demo_state) (movieId s) = Some mv \<and> rank mv \<noteq> None"
    using r by (simp add: demo_itinerary_def show1_def demo_movieById)
  have h2: "\<forall>s \<in> set (shows_it demo_unranked).
              \<forall>mv. movieById (movies demo_state) (movieId s) = Some mv \<longrightarrow> rank mv = None"
    using r by (simp add: demo_unranked_def show2_def demo_movieById)
  from ranked [THEN conjunct2, THEN conjunct2, THEN conjunct2, THEN conjunct2, rule_format,
               OF m1 m2] h1 h2
  have e: "preferenceScore demo_unranked < preferenceScore demo_itinerary" by blast
  from r a b c d m1 m2 e show ?thesis by simp
qed

text \<open>
  C5. The claim as stated fails beyond the clamp: the ranks 10000 and 10001 are distinct and
  give the same contribution, which is not \<open>100000 - 10000\<close>.
\<close>

theorem moviePreferencePoints_spec_counterexample:
  "rank movie_rank10000 = Some (Fin 10000) \<and> rank movie_rank10001 = Some (Fin 10001) \<and>
   moviePreferencePoints movie_rank10000 = moviePreferencePoints movie_rank10001 \<and>
   moviePreferencePoints movie_rank10000 \<noteq> 100000 - 10000"
  by (simp add: movie_rank10000_def movie_rank10001_def moviePreferencePoints_def clampInt_def)

theorem generateItineraries_ranked_witness:
  "maxResults (settings demo_state) = Fin 20 \<and>
   int (length (generateItineraries clock demo_state)) \<le> min (max 20 1) 200 \<and>
   sorted_wrt spec_ranked_before (generateItineraries clock demo_state) \<and>
   length (generateItineraries clock demo_state) = 3"
proof -
  have k: "maxResults (settings demo_state) = Fin 20"
    by (simp add: demo_settings)
  from generateItineraries_ranked [of clock demo_state]
  have s: "sorted_wrt spec_ranked_before (generateItineraries clock demo_state)"
    by (rule conjunct1)
  from generateItineraries_ranked [of clock demo_state]
  have "\<forall>k. maxResults (settings demo_state) = Fin k \<longrightarrow>
      int (length (generateItineraries clock demo_state)) \<le> min (max k 1) 200"
    by (rule conjunct2 [THEN conjunct2, THEN conjunct2, THEN conjunct2, THEN conjunct2,
          THEN conjunct2, THEN conjunct2])
  from this [rule_format, of 20] k
  have "int (length (generateItineraries clock demo_state)) \<le> min (max 20 1) 200" by blast
  moreover have "length (generateItineraries clock demo_state) = 3"
    by (simp add: demo_generate)
  ultimately show ?thesis using k s by blast
qed

text \<open>
  C6. The claim as stated fails for \<open>K = 0\<close>: one itinerary is returned, more
  than \<open>min 0 200\<close>.
\<close>

theorem generateItineraries_ranked_counterexample:
  "maxResults (settings state_K0) = Fin 0 \<and>
   \<not> int (length (generateItineraries clock state_K0)) \<le> min 0 200"
  by (simp add: demo_K0_generate) (simp add: state_K0_def state_of_def)

theorem buildScheduledShows_spec_witness:
  "buildScheduledShows clock demo_state = [show1, show2] \<and>
   show1 \<in> set (buildScheduledShows clock demo_state) \<and>
   (\<exists>m \<in> set (movies demo_state). id_m m = movieId show1 \<and>
      movieById (movies demo_state) (movieId show1) = Some m \<and>
      endMs show1 = startMs show1 + runtimeMins m * 60000) \<and>
   sorted (map startMs (buildScheduledShows clock demo_state)) \<and>
   spec_instance clock (movies demo_state) showtime_stale = None \<and>
   spec_instance clock (movies demo_state) showtime_bad = None"
proof -
  have mem: "show1 \<in> set (buildScheduledShows clock demo_state)"
    by (simp add: demo_build)
  have stale: "movieId_st showtime_stale \<notin> id_m ` set (movies demo_state)"
    by (simp add: demo_settings showtime_stale_def movie1_def movie2_def)
  have bad: "clock (startLocal showtime_bad) = None"
    by (simp add: showtime_bad_def clock_def)
  from buildScheduledShows_spec [of clock demo_state]
  have srt: "sorted (map startMs (buildScheduledShows clock demo_state))"
    by (rule conjunct1)
  from buildScheduledShows_spec [of clock demo_state]
  have drop: "\<forall>st. spec_instance clock (movies demo_state) st \<noteq> None \<longleftrightarrow>
        movieId_st st \<in> id_m ` set (movies demo_state) \<and> clock (startLocal st) \<noteq> None"
    by (rule conjunct2 [THEN conjunct2, THEN conjunct2, THEN conjunct1])
  from buildScheduledShows_spec [of clock demo_state]
  have "\<forall>s \<in> set (buildScheduledShows clock demo_state).
        \<exists>m \<in> set (movies demo_state). id_m m = movieId s \<and>
           movieById (movies demo_state) (movieId s) = Some m \<and>
           endMs s = startMs s + runtimeMins m * 60000"
    by (rule conjunct2 [THEN conjunct2, THEN conjunct2, THEN conjunct2])
  from this [rule_format, OF mem]
  have ex: "\<exists>m \<in> set (movies demo_state). id_m m = movieId show1 \<and>
      movieById (movies demo_state) (movieId show1) = Some m \<and>
      endMs show1 = startMs show1 + runtimeMins m * 60000" .
  from drop [rule_format, of showtime_stale] stale
  have d1: "spec_instance clock (movies demo_state) showtime_stale = None" by blast
  from drop [rule_format, of showtime_bad] bad
  have d2: "spec_instance clock (movies demo_state) showtime_bad = None" by blast
  from demo_build mem ex srt d1 d2 show ?thesis by blast
qed

theorem generateItineraries_nonempty_capped_witness:
  "buildScheduledShows clock demo_state \<noteq> [] \<and> generateItineraries clock demo_state \<noteq> [] \<and>
   length (generateItineraries clock demo_state) \<le> 200"
proof -
  have "buildScheduledShows clock demo_state \<noteq> []" by (simp add: demo_build)
  with generateItineraries_nonempty_capped [of clock demo_state] show ?thesis by blast
qed

lemma beam_scores_1:
  "map preferenceScore (generateItineraries clock (withBeamWidth (Fin 1) beam_state)) =
     [499973, 399982, 299990, 199997, 99999, 99998, 99997, 99996, 99995, 99993, 99992, 99991]"
  by code_simp

lemma beam_scores_2:
  "map preferenceScore (generateItineraries clock (withBeamWidth (Fin 2) beam_state)) =
     [299992, 299991, 199997, 199996, 99999, 99998, 99997, 99996, 99995, 99993, 99992, 99991]"
  by code_simp

lemma beam_scores_200:
  "map preferenceScore (generateItineraries clock (withBeamWidth (Fin 200) beam_state)) =
     [499973, 399982, 399981, 399980, 399975, 399974, 299992, 299991, 299990,
      299989, 299988, 299984, 299983, 299983, 299982, 299982, 299981, 299976,
      199997, 199996]"
  by code_simp

lemma beam_chains_1:
  "map (\<lambda>it. map showtimeId (shows_it it))
     (take 1 (generateItineraries clock (withBeamWidth (Fin 1) beam_state)))
   = [[''A'', ''B'', ''F'', ''G'', ''H'']]"
  by code_simp

lemma beam_chains_2:
  "map (\<lambda>it. map showtimeId (shows_it it))
     (take 1 (generateItineraries clock (withBeamWidth (Fin 2) beam_state)))
   = [[''A'', ''C'', ''D'']]"
  by code_simp

lemma beam_state_wide: "beamNeverCuts clock beam_state (Fin 200)"
  by code_simp

text \<open>
  C7. The claim as stated fails. On the eight showings of \<open>beam_state\<close>, beam
  width 1 finds a chain of five movies with score 499973, while beam width 2 ends with
  299992 as its best score: the wider beam drops the chain that the narrow one extends.
\<close>

theorem generateItineraries_beam_counterexample:
  "bestPreferenceScore (generateItineraries clock (withBeamWidth (Fin 1) beam_state)) = 499973 \<and>
   bestPreferenceScore (generateItineraries clock (withBeamWidth (Fin 2) beam_state)) = 299992 \<and>
   \<not> bestPreferenceScore (generateItineraries clock (withBeamWidth (Fin 1) beam_state))
       \<le> bestPreferenceScore (generateItineraries clock (withBeamWidth (Fin 2) beam_state))"
  by (simp add: bestPreferenceScore_def beam_scores_1 beam_scores_2)

theorem generateItineraries_beam_exhaustive_witness:
  "distinct (map id_st (showtimes beam_state)) \<and>
   beamNeverCuts clock beam_state (Fin 200) \<and>
   generateItineraries clock (withBeamWidth (Fin 2) beam_state) \<noteq> [] \<and>
   bestPreferenceScore (generateItineraries clock (withBeamWidth (Fin 2) beam_state))
     \<le> bestPreferenceScore (generateItineraries clock (withBeamWidth (Fin 200) beam_state)) \<and>
   bestPreferenceScore (generateItineraries clock (withBeamWidth (Fin 200) beam_state)) = 499973"
proof -
  have c: "\<forall>st \<in> set (showtimes beam_state). CHR ''>'' \<notin> set (id_st st)"
    by (simp add: beam_state_def showing_def)
  have d: "distinct (map id_st (showtimes beam_state))"
    by (simp add: beam_state_def showing_def)
  have n: "generateItineraries clock (withBeamWidth (Fin 2) beam_state) \<noteq> []"
    using beam_scores_2 by auto
  from generateItineraries_beam_exhaustive
         [where state = beam_state and getTime = clock and W' = "Fin 200" and W = "Fin 2"]
       c d beam_state_wide n
  have "bestPreferenceScore (generateItineraries clock (withBeamWidth (Fin 2) beam_state))
     \<le> bestPreferenceScore (generateItineraries clock (withBeamWidth (Fin 200) beam_state))"
    by blast
  moreover have "bestPreferenceScore (generateItineraries clock (withBeamWidth (Fin 200) beam_state)) = 499973"
    by (simp add: bestPreferenceScore_def beam_scores_200)
  ultimately show ?thesis using d beam_state_wide n by blast
qed

end
